theory Spec2Isabelle
  imports Main "HOL-Library.Sublist"
begin

section \<open>Python values used by backup.py\<close>

text \<open>
  Exceptions are values. Every \<^verbatim>\<open>raise\<close> of backup.py and of the library calls it
  makes is a branch that returns \<open>Inl\<close> of one of these; backup.py has no
  \<^verbatim>\<open>try\<close> except the one around \<^verbatim>\<open>config.get("backup", "last_backup_time")\<close>.
\<close>

datatype error =
    ValueError string
  | IndexError
  | OverflowError
  | NoOptionError string
  | OSError string

subsection \<open>int(str)\<close>

text \<open>
  Strings are lists of code points below 256. Python's \<^verbatim>\<open>int(s)\<close> (CPython 3.11 and
  later, with the default limit of 4300 digits) skips white space on both sides, takes
  an optional sign and then the run of decimal digits and underscores. The run must
  begin and end with a digit and hold no two underscores in a row; a run of more than
  4300 digits is refused; nothing may follow the run. The white space of int() is that
  of C (code points 9 to 13 and 32) and, of the code points from 128, the Unicode
  spaces 133 and 160; the code points 28 to 31, white space for \<^verbatim>\<open>str.isspace\<close> and
  for \<^verbatim>\<open>\s\<close>, are not.
\<close>

definition py_isspace :: "char \<Rightarrow> bool" where
  "py_isspace c = ((of_char c :: nat) \<in> set [9, 10, 11, 12, 13, 28, 29, 30, 31, 32, 133, 160])"

definition int_isspace :: "char \<Rightarrow> bool" where
  "int_isspace c = ((of_char c :: nat) \<in> set [9, 10, 11, 12, 13, 32, 133, 160])"

definition py_isdigit :: "char \<Rightarrow> bool" where
  "py_isdigit c = (c \<in> set ''0123456789'')"

definition digit_value :: "char \<Rightarrow> int" where
  "digit_value c = int (of_char c) - 48"

definition dec_value :: "string \<Rightarrow> int" where
  "dec_value ds = foldl (\<lambda>a c. a * 10 + digit_value c) 0 ds"

definition int_strip :: "string \<Rightarrow> string" where
  "int_strip s = rev (dropWhile int_isspace (rev (dropWhile int_isspace s)))"

fun double_underscore :: "string \<Rightarrow> bool" where
  "double_underscore (a # b # cs) =
     ((a = CHR ''_'' \<and> b = CHR ''_'') \<or> double_underscore (b # cs))"
| "double_underscore cs = False"

definition max_str_digits :: nat where
  "max_str_digits = 4300"

definition py_int :: "string \<Rightarrow> error + int" where
  "py_int s =
     (let t = int_strip s;
          neg = (t \<noteq> [] \<and> hd t = CHR ''-'');
          body = (if t \<noteq> [] \<and> (hd t = CHR ''-'' \<or> hd t = CHR ''+'') then tl t else t);
          run = takeWhile (\<lambda>c. py_isdigit c \<or> c = CHR ''_'') body;
          rest = dropWhile (\<lambda>c. py_isdigit c \<or> c = CHR ''_'') body;
          digits = filter py_isdigit run
      in if run = [] \<or> hd run = CHR ''_'' \<or> double_underscore run \<or> last run = CHR ''_''
         then Inl (ValueError ''invalid literal for int() with base 10'')
         else if length digits > max_str_digits
         then Inl (ValueError ''Exceeds the limit (4300 digits) for integer string conversion'')
         else if rest \<noteq> []
         then Inl (ValueError ''invalid literal for int() with base 10'')
         else Inr (if neg then - dec_value digits else dec_value digits))"

subsection \<open>timedelta\<close>

record timedelta =
  days :: int
  seconds :: int
  microseconds :: int

text \<open>
  \<^verbatim>\<open>timedelta(days=d, hours=h)\<close>: the hours are turned into seconds, whole days are
  carried over, and a result beyond 999999999 days raises OverflowError.
\<close>

definition py_timedelta :: "int \<Rightarrow> int \<Rightarrow> error + timedelta" where
  "py_timedelta d h =
     (let s = h * 3600;
          d' = d + s div 86400
      in if \<bar>d'\<bar> > 999999999 then Inl OverflowError
         else Inr \<lparr>days = d', seconds = s mod 86400, microseconds = 0\<rparr>)"

definition total_seconds :: "timedelta \<Rightarrow> int" where
  "total_seconds td = days td * 86400 + seconds td"

section \<open>parse_timeframe\<close>

text \<open>
  \<^verbatim>\<open>duration = int(timeframe[:-1]); unit = timeframe[-1]\<close>, then the test of the unit.
  The conversion comes first, so a string whose leading part int() rejects raises the
  ValueError of int() whatever its last character is.
\<close>

definition parse_timeframe :: "string \<Rightarrow> error + timedelta" where
  "parse_timeframe timeframe =
     (case py_int (butlast timeframe) of
        Inl e \<Rightarrow> Inl e
      | Inr duration \<Rightarrow>
          (if timeframe = [] then Inl IndexError
           else let unit = last timeframe
                in if unit = CHR ''h'' then py_timedelta 0 duration
                   else if unit = CHR ''d'' then py_timedelta duration 0
                   else Inl (ValueError ''Invalid time frame unit'')))"

text \<open>The strings of the form \<^verbatim>\<open>^\d+[hd]$\<close>, and the number their digits write.\<close>

definition matches_timespec :: "string \<Rightarrow> bool" where
  "matches_timespec s =
     (s \<noteq> [] \<and> butlast s \<noteq> [] \<and> list_all py_isdigit (butlast s)
      \<and> (last s = CHR ''h'' \<or> last s = CHR ''d''))"

definition unit_seconds :: "char \<Rightarrow> int" where
  "unit_seconds u = (if u = CHR ''h'' then 3600 else 86400)"

section \<open>datetime\<close>

text \<open>
  A naive datetime is its seven fields, as in Python's datetime class.
  Comparison is the comparison of the field tuples; subtraction goes through the
  proleptic Gregorian ordinal of the date (toordinal) and normalises the difference
  to days, seconds and microseconds.
\<close>

record datetime =
  year :: int
  month :: int
  day :: int
  hour :: int
  minute :: int
  second :: int
  microsecond :: int

definition datetime_min :: datetime where
  "datetime_min = \<lparr>year = 1, month = 1, day = 1, hour = 0, minute = 0, second = 0, microsecond = 0\<rparr>"

fun cmp_less :: "int list \<Rightarrow> int list \<Rightarrow> bool" where
  "cmp_less (x # xs) (y # ys) = (x < y \<or> (x = y \<and> cmp_less xs ys))"
| "cmp_less [] (y # ys) = True"
| "cmp_less xs [] = False"

definition dt_key :: "datetime \<Rightarrow> int list" where
  "dt_key t = [year t, month t, day t, hour t, minute t, second t, microsecond t]"

definition dt_less :: "datetime \<Rightarrow> datetime \<Rightarrow> bool" where
  "dt_less a b = cmp_less (dt_key a) (dt_key b)"

definition is_leap :: "int \<Rightarrow> bool" where
  "is_leap y = (y mod 4 = 0 \<and> (y mod 100 \<noteq> 0 \<or> y mod 400 = 0))"

definition days_in_month :: "int \<Rightarrow> int \<Rightarrow> int" where
  "days_in_month y m =
     (if m = 2 \<and> is_leap y then 29
      else [31, 28, 31, 30, 31, 30, 31, 31, 30, 31, 30, 31] ! nat (m - 1))"

definition days_before_year :: "int \<Rightarrow> int" where
  "days_before_year y = (let y1 = y - 1 in y1 * 365 + y1 div 4 - y1 div 100 + y1 div 400)"

definition days_before_month :: "int \<Rightarrow> int \<Rightarrow> int" where
  "days_before_month y m =
     [0, 31, 59, 90, 120, 151, 181, 212, 243, 273, 304, 334] ! nat (m - 1)
     + (if m > 2 \<and> is_leap y then 1 else 0)"

definition toordinal :: "datetime \<Rightarrow> int" where
  "toordinal t = days_before_year (year t) + days_before_month (year t) (month t) + day t"

text \<open>\<^verbatim>\<open>a - b\<close> for two datetimes; \<^verbatim>\<open>.days\<close> of the result is the floor of the
  difference in days.\<close>

definition dt_sub :: "datetime \<Rightarrow> datetime \<Rightarrow> timedelta" where
  "dt_sub a b =
     (let secs1 = second a + minute a * 60 + hour a * 3600;
          secs2 = second b + minute b * 60 + hour b * 3600;
          us = ((toordinal a - toordinal b) * 86400 + (secs1 - secs2)) * 1000000
               + (microsecond a - microsecond b)
      in \<lparr>days = us div 86400000000,
          seconds = us div 1000000 mod 86400,
          microseconds = us mod 1000000\<rparr>)"

subsection \<open>strftime and strptime\<close>

text \<open>
  The two formats of backup.py, \<^verbatim>\<open>%Y%m%d%H%M%S\<close> and \<^verbatim>\<open>%Y-%m-%d %H:%M:%S\<close>, as lists
  of directives. strftime writes every field zero-padded to its width.
\<close>

datatype directive = DY | Dm | Dd | DH | DM | DS | Lit char

definition fmt_compact :: "directive list" where
  "fmt_compact = [DY, Dm, Dd, DH, DM, DS]"

definition fmt_config :: "directive list" where
  "fmt_config = [DY, Lit (CHR ''-''), Dm, Lit (CHR ''-''), Dd, Lit (CHR '' ''),
                 DH, Lit (CHR '':''), DM, Lit (CHR '':''), DS]"

definition digit_char :: "int \<Rightarrow> char" where
  "digit_char d = ''0123456789'' ! nat (d mod 10)"

definition pad2 :: "int \<Rightarrow> string" where
  "pad2 n = [digit_char (n div 10), digit_char n]"

definition pad4 :: "int \<Rightarrow> string" where
  "pad4 n = [digit_char (n div 1000), digit_char (n div 100), digit_char (n div 10), digit_char n]"

fun format_directive :: "datetime \<Rightarrow> directive \<Rightarrow> string" where
  "format_directive t DY = pad4 (year t)"
| "format_directive t Dm = pad2 (month t)"
| "format_directive t Dd = pad2 (day t)"
| "format_directive t DH = pad2 (hour t)"
| "format_directive t DM = pad2 (minute t)"
| "format_directive t DS = pad2 (second t)"
| "format_directive t (Lit c) = [c]"

definition strftime :: "directive list \<Rightarrow> datetime \<Rightarrow> string" where
  "strftime fmt t = concat (map (format_directive t) fmt)"

text \<open>
  strptime turns the format into a regular expression and takes the first match the
  backtracking matcher finds: a directive is a list of alternatives tried in order,
  \<^verbatim>\<open>%Y\<close> is \<^verbatim>\<open>\d\d\d\d\<close>, \<^verbatim>\<open>%m\<close> is \<^verbatim>\<open>1[0-2]|0[1-9]|[1-9]\<close>,
  \<^verbatim>\<open>%d\<close> is \<^verbatim>\<open>3[0-1]|[1-2]\d|0[1-9]|[1-9]| [1-9]\<close>, \<^verbatim>\<open>%H\<close> is \<^verbatim>\<open>2[0-3]|[0-1]\d|\d\<close>,
  \<^verbatim>\<open>%M\<close> is \<^verbatim>\<open>[0-5]\d|\d\<close>, \<^verbatim>\<open>%S\<close> is \<^verbatim>\<open>6[0-1]|[0-5]\d|\d\<close>, and a blank of
  the format is \<^verbatim>\<open>\s+\<close>. An alternative is given by the sets of characters allowed at
  its positions.
\<close>

definition cs_digit :: string where "cs_digit = ''0123456789''"

fun alternatives :: "directive \<Rightarrow> string list list" where
  "alternatives DY = [[cs_digit, cs_digit, cs_digit, cs_digit]]"
| "alternatives Dm = [[''1'', ''012''], [''0'', ''123456789''], [''123456789'']]"
| "alternatives Dd = [[''3'', ''01''], [''12'', cs_digit], [''0'', ''123456789''],
                      [''123456789''], ['' '', ''123456789'']]"
| "alternatives DH = [[''2'', ''0123''], [''01'', cs_digit], [cs_digit]]"
| "alternatives DM = [[''012345'', cs_digit], [cs_digit]]"
| "alternatives DS = [[''6'', ''01''], [''012345'', cs_digit], [cs_digit]]"
| "alternatives (Lit c) = [[[c]]]"

fun match_alt :: "string list \<Rightarrow> string \<Rightarrow> bool" where
  "match_alt [] s = True"
| "match_alt (cls # clss) [] = False"
| "match_alt (cls # clss) (c # s) = (c \<in> set cls \<and> match_alt clss s)"

text \<open>The ways one directive can match at the start of \<open>s\<close>, in the order the matcher
  tries them, each with the text matched and the rest of the string.\<close>

definition match_directive :: "directive \<Rightarrow> string \<Rightarrow> (string \<times> string) list" where
  "match_directive d s =
     (if d = Lit (CHR '' '')
      then map (\<lambda>k. (take k s, drop k s)) (rev [1 ..< Suc (length (takeWhile py_isspace s))])
      else map (\<lambda>alt. (take (length alt) s, drop (length alt) s))
             (filter (\<lambda>alt. match_alt alt s) (alternatives d)))"

fun match_format :: "directive list \<Rightarrow> string \<Rightarrow> ((directive \<times> string) list \<times> string) list" where
  "match_format [] s = [([], s)]"
| "match_format (d # ds) s =
     concat (map (\<lambda>(m, r). map (\<lambda>(fs, r'). ((d, m) # fs, r')) (match_format ds r))
                 (match_directive d s))"

text \<open>The value of a matched field: \<^verbatim>\<open>int(found_dict[...])\<close>, with the default of
  strptime where the format has no such directive.\<close>

definition field_value :: "(directive \<times> string) list \<Rightarrow> directive \<Rightarrow> int \<Rightarrow> int" where
  "field_value fs d dflt =
     (case map_of fs d of None \<Rightarrow> dflt
      | Some m \<Rightarrow> (case py_int m of Inr n \<Rightarrow> n | Inl e \<Rightarrow> dflt))"

text \<open>The datetime constructor checks the ranges of the fields.\<close>

definition datetime_new :: "int \<Rightarrow> int \<Rightarrow> int \<Rightarrow> int \<Rightarrow> int \<Rightarrow> int \<Rightarrow> error + datetime" where
  "datetime_new y m d hh mm ss =
     (if 1 \<le> y \<and> y \<le> 9999 \<and> 1 \<le> m \<and> m \<le> 12 \<and> 1 \<le> d \<and> d \<le> days_in_month y m
         \<and> 0 \<le> hh \<and> hh \<le> 23 \<and> 0 \<le> mm \<and> mm \<le> 59 \<and> 0 \<le> ss \<and> ss \<le> 59
      then Inr \<lparr>year = y, month = m, day = d, hour = hh, minute = mm, second = ss, microsecond = 0\<rparr>
      else Inl (ValueError ''field out of range''))"

definition strptime :: "string \<Rightarrow> directive list \<Rightarrow> error + datetime" where
  "strptime data_string fmt =
     (case match_format fmt data_string of
        [] \<Rightarrow> Inl (ValueError ''time data does not match format'')
      | (fs, rest) # _ \<Rightarrow>
          if rest \<noteq> [] then Inl (ValueError ''unconverted data remains'')
          else datetime_new (field_value fs DY 1900) (field_value fs Dm 1) (field_value fs Dd 1)
                 (field_value fs DH 0) (field_value fs DM 0) (field_value fs DS 0))"

section \<open>Strings and paths\<close>

text \<open>\<^verbatim>\<open>s.split(sep)\<close> for a separator of one character: never empty.\<close>

fun py_split :: "char \<Rightarrow> string \<Rightarrow> string list" where
  "py_split sep [] = [[]]"
| "py_split sep (c # cs) =
     (if c = sep then [] # py_split sep cs
      else (case py_split sep cs of x # xs \<Rightarrow> (c # x) # xs | [] \<Rightarrow> [[c]]))"

text \<open>\<^verbatim>\<open>s.rfind(c)\<close>: the index of the last occurrence, or -1.\<close>

fun rfind_from :: "char \<Rightarrow> string \<Rightarrow> int \<Rightarrow> int \<Rightarrow> int" where
  "rfind_from c [] i best = best"
| "rfind_from c (x # xs) i best = rfind_from c xs (i + 1) (if x = c then i else best)"

definition rfind :: "char \<Rightarrow> string \<Rightarrow> int" where
  "rfind c s = rfind_from c s 0 (- 1)"

text \<open>
  \<^verbatim>\<open>os.path.splitext\<close>: the extension starts at the last dot after the last slash,
  unless only dots stand between that slash and the dot (leading dots belong to the
  name).
\<close>

definition splitext :: "string \<Rightarrow> string \<times> string" where
  "splitext p =
     (let sepIndex = rfind (CHR ''/'') p;
          dotIndex = rfind (CHR ''.'') p
      in if dotIndex > sepIndex
            \<and> list_ex (\<lambda>c. c \<noteq> CHR ''.'')
                 (take (nat (dotIndex - (sepIndex + 1))) (drop (nat (sepIndex + 1)) p))
         then (take (nat dotIndex) p, drop (nat dotIndex) p)
         else (p, []))"

section \<open>The file system\<close>

text \<open>
  A path is the list of its components, so \<^verbatim>\<open>os.path.join\<close> is append,
  \<^verbatim>\<open>os.path.dirname\<close> is \<open>butlast\<close>, and \<^verbatim>\<open>os.path.relpath(p, start)\<close> of a path
  \<open>p\<close> found by walking \<open>start\<close> drops the components of \<open>start\<close>. The file system
  is the list of the paths that exist below the root, each with its node; the root
  \<open>[]\<close> is a directory. The modification time of a file is kept as the datetime that
  \<^verbatim>\<open>datetime.fromtimestamp(os.path.getmtime(p))\<close> gives.
\<close>

type_synonym path = "string list"

datatype node = Dir | File (content: string) (mtime: datetime) (readable: bool)

type_synonym filesystem = "(path \<times> node) list"

definition path_exists :: "filesystem \<Rightarrow> path \<Rightarrow> bool" where
  "path_exists fs p = (p = [] \<or> map_of fs p \<noteq> None)"

definition isdir :: "filesystem \<Rightarrow> path \<Rightarrow> bool" where
  "isdir fs p = (p = [] \<or> map_of fs p = Some Dir)"

definition fs_write :: "path \<Rightarrow> node \<Rightarrow> filesystem \<Rightarrow> filesystem" where
  "fs_write p n fs =
     (if map_of fs p = None then fs @ [(p, n)]
      else map (\<lambda>(q, old). if q = p then (q, n) else (q, old)) fs)"

definition mkdir :: "path \<Rightarrow> filesystem \<Rightarrow> error + filesystem" where
  "mkdir name fs =
     (if path_exists fs name then Inl (OSError ''FileExistsError'')
      else if \<not> path_exists fs (butlast name) then Inl (OSError ''FileNotFoundError'')
      else if \<not> isdir fs (butlast name) then Inl (OSError ''NotADirectoryError'')
      else Inr (fs_write name Dir fs))"

text \<open>
  \<^verbatim>\<open>os.makedirs(name, exist_ok=...)\<close>: the parent is made first when it does not exist
  (a FileExistsError from there is passed over), then \<^verbatim>\<open>mkdir(name)\<close>, whose error is
  dropped when \<open>exist_ok\<close> holds and \<open>name\<close> is a directory. The recursion runs on the
  reversed path: its head is the last component.
\<close>

fun makedirs_rev :: "bool \<Rightarrow> string list \<Rightarrow> filesystem \<Rightarrow> error + filesystem" where
  "makedirs_rev exist_ok [] fs = (if exist_ok then Inr fs else Inl (OSError ''FileExistsError''))"
| "makedirs_rev exist_ok (tail # rhead) fs =
     (case (if rhead \<noteq> [] \<and> \<not> path_exists fs (rev rhead)
            then (case makedirs_rev exist_ok rhead fs of
                    Inl e \<Rightarrow> if e = OSError ''FileExistsError'' then Inr fs else Inl e
                  | Inr fs' \<Rightarrow> Inr fs')
            else Inr fs) of
        Inl e \<Rightarrow> Inl e
      | Inr fs' \<Rightarrow>
          (case mkdir (rev (tail # rhead)) fs' of
             Inl e \<Rightarrow> if exist_ok \<and> isdir fs' (rev (tail # rhead)) then Inr fs' else Inl e
           | Inr fs'' \<Rightarrow> Inr fs''))"

definition makedirs :: "bool \<Rightarrow> path \<Rightarrow> filesystem \<Rightarrow> error + filesystem" where
  "makedirs exist_ok name fs = makedirs_rev exist_ok (rev name) fs"

definition getmtime :: "filesystem \<Rightarrow> path \<Rightarrow> error + datetime" where
  "getmtime fs p =
     (case map_of fs p of
        Some (File c m r) \<Rightarrow> Inr m
      | _ \<Rightarrow> Inl (OSError ''FileNotFoundError''))"

text \<open>
  \<^verbatim>\<open>shutil.copy2(src, dst)\<close>: a destination that is a directory stands for the file of
  the source's name inside it; the copy keeps the content and the modification time.
  It fails when the source cannot be read, when source and destination are the same
  file, and when the destination is a directory or has no directory to stand in.
\<close>

definition copy2 :: "path \<Rightarrow> path \<Rightarrow> filesystem \<Rightarrow> error + filesystem" where
  "copy2 src dst fs =
     (let dst' = (if isdir fs dst then dst @ [last src] else dst)
      in case map_of fs src of
           Some (File c m r) \<Rightarrow>
             if dst' = src then Inl (OSError ''SameFileError'')
             else if \<not> r then Inl (OSError ''PermissionError'')
             else if isdir fs dst' then Inl (OSError ''IsADirectoryError'')
             else if \<not> isdir fs (butlast dst') then Inl (OSError ''FileNotFoundError'')
             else Inr (fs_write dst' (File c m True) fs)
         | _ \<Rightarrow> Inl (OSError ''FileNotFoundError''))"

text \<open>\<^verbatim>\<open>shutil.rmtree(p)\<close> removes a directory and all below it, and raises on anything
  that is not a directory.\<close>

definition rmtree :: "path \<Rightarrow> filesystem \<Rightarrow> error + filesystem" where
  "rmtree p fs =
     (if p \<noteq> [] \<and> map_of fs p = Some Dir then Inr (filter (\<lambda>(q, n). \<not> prefix p q) fs)
      else if path_exists fs p then Inl (OSError ''NotADirectoryError'')
      else Inl (OSError ''FileNotFoundError''))"

definition listdir :: "path \<Rightarrow> filesystem \<Rightarrow> error + string list" where
  "listdir p fs =
     (if isdir fs p then Inr (map (\<lambda>(q, n). last q) (filter (\<lambda>(q, n). q \<noteq> [] \<and> butlast q = p) fs))
      else if path_exists fs p then Inl (OSError ''NotADirectoryError'')
      else Inl (OSError ''FileNotFoundError''))"

text \<open>
  \<^verbatim>\<open>for root, _, files in os.walk(start): for file in files\<close>: the pairs of a directory
  below \<open>start\<close> and a file in it, taken from the tree as it is when the walk starts.
  A \<open>start\<close> that is no directory gives no pair (os.walk drops the error).
\<close>

definition os_walk :: "path \<Rightarrow> filesystem \<Rightarrow> (path \<times> string) list" where
  "os_walk start fs =
     (if isdir fs start
      then map (\<lambda>(q, n). (butlast q, last q))
             (filter (\<lambda>(q, n). n \<noteq> Dir \<and> strict_prefix start q) fs)
      else [])"

section \<open>The state of a run\<close>

text \<open>
  What backup.py reads and writes: the file system, the clock behind
  \<^verbatim>\<open>datetime.now()\<close> (its k-th call returns \<open>clock k\<close>), the lines given to logging,
  and backup.conf.
\<close>

datatype log_line =
    Info string
  | Debug string
  | Backed_up path path
  | No_changes path
  | Removed_backup path

record config =
  cfg_source_path :: "path option"
  cfg_backup_path :: "path option"
  cfg_backup_retention_time :: "string option"
  cfg_second_stage_backup_interval :: "string option"
  cfg_last_backup_time :: "string option"

record world =
  filesys :: filesystem
  clock :: "nat \<Rightarrow> datetime"
  ticks :: nat
  log_lines :: "log_line list"
  config_file :: config

definition datetime_now :: "world \<Rightarrow> datetime \<times> world" where
  "datetime_now w = (clock w (ticks w), w\<lparr>ticks := Suc (ticks w)\<rparr>)"

section \<open>create_backup\<close>

text \<open>
  The body of the loop of create_backup for one file of the walk. Nothing is caught:
  an error of makedirs or copy2 leaves the loop with the state reached so far.
\<close>

definition backup_file_path_of ::
  "path \<Rightarrow> path \<Rightarrow> datetime \<Rightarrow> path \<Rightarrow> string \<Rightarrow> path" where
  "backup_file_path_of source_path backup_path current_time root file =
     (let file_path = root @ [file];
          rel_path = drop (length source_path) file_path;
          backup_time = strftime fmt_compact current_time;
          backup_file_name = fst (splitext file);
          file_ext = snd (splitext file);
          new_file_name = backup_file_name @ ''_'' @ backup_time @ file_ext
      in backup_path @ rel_path @ [new_file_name])"

definition backup_one ::
  "path \<Rightarrow> path \<Rightarrow> datetime \<Rightarrow> datetime \<Rightarrow> path \<Rightarrow> string \<Rightarrow> world
     \<Rightarrow> (error + unit) \<times> world" where
  "backup_one source_path backup_path last_backup_time current_time root file w =
     (let file_path = root @ [file]
      in case getmtime (filesys w) file_path of
           Inl e \<Rightarrow> (Inl e, w)
         | Inr modified_time \<Rightarrow>
             if dt_less last_backup_time modified_time \<or> last_backup_time = datetime_min
             then (let backup_file_path =
                         backup_file_path_of source_path backup_path current_time root file
                   in case makedirs True (butlast backup_file_path) (filesys w) of
                        Inl e \<Rightarrow> (Inl e, w)
                      | Inr fs1 \<Rightarrow>
                          (case copy2 file_path backup_file_path fs1 of
                             Inl e \<Rightarrow> (Inl e, w\<lparr>filesys := fs1\<rparr>)
                           | Inr fs2 \<Rightarrow>
                               (Inr (), w\<lparr>filesys := fs2,
                                          log_lines := log_lines w @ [Backed_up file_path backup_file_path]\<rparr>)))
             else (Inr (), w\<lparr>log_lines := log_lines w @ [No_changes file_path]\<rparr>))"

fun backup_loop ::
  "path \<Rightarrow> path \<Rightarrow> datetime \<Rightarrow> datetime \<Rightarrow> (path \<times> string) list \<Rightarrow> world
     \<Rightarrow> (error + unit) \<times> world" where
  "backup_loop source_path backup_path last_backup_time current_time [] w = (Inr (), w)"
| "backup_loop source_path backup_path last_backup_time current_time ((root, file) # rest) w =
     (case backup_one source_path backup_path last_backup_time current_time root file w of
        (Inl e, w') \<Rightarrow> (Inl e, w')
      | (Inr u, w') \<Rightarrow> backup_loop source_path backup_path last_backup_time current_time rest w')"

text \<open>The two timeframes are parameters of create_backup that its body never reads.\<close>

definition create_backup ::
  "path \<Rightarrow> path \<Rightarrow> datetime \<Rightarrow> timedelta \<Rightarrow> timedelta \<Rightarrow> world \<Rightarrow> (error + unit) \<times> world" where
  "create_backup source_path backup_path last_backup_time backup_retention_time
       second_stage_backup_interval w =
     (let current_time = fst (datetime_now w);
          w1 = snd (datetime_now w)
      in backup_loop source_path backup_path last_backup_time current_time
           (os_walk source_path (filesys w1)) w1)"

section \<open>remove_old_backups\<close>

text \<open>
  \<^verbatim>\<open>backup.split("_")[1]\<close> and strptime on it; both raise, and nothing catches.
\<close>

definition backup_time_of :: "string \<Rightarrow> error + datetime" where
  "backup_time_of backup =
     (case py_split (CHR ''_'') backup of
        a # backup_time_str # rest \<Rightarrow> strptime backup_time_str fmt_compact
      | _ \<Rightarrow> Inl IndexError)"

text \<open>
  The body of the loop for one name of the listing. The interval is the number the
  body compares with 0 and takes the remainder by; \<^verbatim>\<open>datetime.now()\<close> is read again
  for every entry that is past the cutoff while the interval is positive.
\<close>

definition remove_one ::
  "path \<Rightarrow> datetime \<Rightarrow> int \<Rightarrow> string \<Rightarrow> world \<Rightarrow> (error + unit) \<times> world" where
  "remove_one backup_path oldest_allowed_backup_time second_stage_backup_interval backup w =
     (case backup_time_of backup of
        Inl e \<Rightarrow> (Inl e, w)
      | Inr backup_time \<Rightarrow>
          if dt_less backup_time oldest_allowed_backup_time
          then (let w1 = (if second_stage_backup_interval > 0 then snd (datetime_now w) else w);
                    spared = (second_stage_backup_interval > 0
                              \<and> days (dt_sub (fst (datetime_now w)) backup_time)
                                  mod second_stage_backup_interval = 0)
                in if spared then (Inr (), w1)
                   else (let backup_file_path = backup_path @ [backup]
                         in case rmtree backup_file_path (filesys w1) of
                              Inl e \<Rightarrow> (Inl e, w1)
                            | Inr fs' \<Rightarrow>
                                (Inr (), w1\<lparr>filesys := fs',
                                           log_lines := log_lines w1 @ [Removed_backup backup_file_path]\<rparr>)))
          else (Inr (), w))"

fun remove_loop ::
  "path \<Rightarrow> datetime \<Rightarrow> int \<Rightarrow> string list \<Rightarrow> world \<Rightarrow> (error + unit) \<times> world" where
  "remove_loop backup_path oldest_allowed_backup_time second_stage_backup_interval [] w = (Inr (), w)"
| "remove_loop backup_path oldest_allowed_backup_time second_stage_backup_interval (backup # rest) w =
     (case remove_one backup_path oldest_allowed_backup_time second_stage_backup_interval backup w of
        (Inl e, w') \<Rightarrow> (Inl e, w')
      | (Inr u, w') \<Rightarrow>
          remove_loop backup_path oldest_allowed_backup_time second_stage_backup_interval rest w')"

definition remove_old_backups ::
  "path \<Rightarrow> datetime \<Rightarrow> int \<Rightarrow> world \<Rightarrow> (error + unit) \<times> world" where
  "remove_old_backups backup_path oldest_allowed_backup_time second_stage_backup_interval w =
     (case listdir backup_path (filesys w) of
        Inl e \<Rightarrow> (Inl e, w)
      | Inr backups \<Rightarrow>
          remove_loop backup_path oldest_allowed_backup_time second_stage_backup_interval backups w)"

section \<open>perform_backup\<close>

text \<open>
  The run: read backup.conf, parse the two timeframes, make the backup directory when
  it is missing, take the last backup time (the minimum datetime when the option is
  missing; a value that strptime rejects raises), call create_backup, then write the
  reading of \<^verbatim>\<open>datetime.now()\<close> taken at that point into backup.conf.
  remove_old_backups is not called.
\<close>

definition perform_backup :: "world \<Rightarrow> (error + unit) \<times> world" where
  "perform_backup w =
     (let config = config_file w in
      case cfg_source_path config of
        None \<Rightarrow> (Inl (NoOptionError ''source_path''), w)
      | Some source_path \<Rightarrow>
      case cfg_backup_path config of
        None \<Rightarrow> (Inl (NoOptionError ''backup_path''), w)
      | Some backup_path \<Rightarrow>
      case cfg_backup_retention_time config of
        None \<Rightarrow> (Inl (NoOptionError ''backup_retention_time''), w)
      | Some retention_str \<Rightarrow>
      case parse_timeframe retention_str of
        Inl e \<Rightarrow> (Inl e, w)
      | Inr backup_retention_time \<Rightarrow>
      case cfg_second_stage_backup_interval config of
        None \<Rightarrow> (Inl (NoOptionError ''second_stage_backup_interval''), w)
      | Some interval_str \<Rightarrow>
      case parse_timeframe interval_str of
        Inl e \<Rightarrow> (Inl e, w)
      | Inr second_stage_backup_interval \<Rightarrow>
      case (if \<not> path_exists (filesys w) backup_path
            then makedirs False backup_path (filesys w) else Inr (filesys w)) of
        Inl e \<Rightarrow> (Inl e, w)
      | Inr fs1 \<Rightarrow>
      case (case cfg_last_backup_time config of
              None \<Rightarrow> Inr datetime_min
            | Some last_backup_time_str \<Rightarrow> strptime last_backup_time_str fmt_config) of
        Inl e \<Rightarrow> (Inl e, w\<lparr>filesys := fs1\<rparr>)
      | Inr last_backup_time \<Rightarrow>
      case create_backup source_path backup_path last_backup_time backup_retention_time
             second_stage_backup_interval
             (w\<lparr>filesys := fs1,
                log_lines := log_lines w @ [Info ''Starting backup process...'',
                  Debug ''Source Path'', Debug ''Backup Path'', Debug ''Backup Retention Time'',
                  Debug ''Second Stage Backup Interval'']\<rparr>) of
        (Inl e, w2) \<Rightarrow> (Inl e, w2)
      | (Inr u, w2) \<Rightarrow>
          (Inr (), (snd (datetime_now w2))
             \<lparr>config_file := config\<lparr>cfg_last_backup_time :=
                               Some (strftime fmt_config (fst (datetime_now w2)))\<rparr>,
              log_lines := log_lines w2 @ [Info ''Backup process completed.'']\<rparr>))"

section \<open>The reading of the specification and concrete inputs\<close>

text \<open>
  The timestamp token as the specification words it: the second-to-last of the segments
  that the underscores delimit. remove_old_backups does not use it; it is here to be
  compared with \<open>backup_time_of\<close>.
\<close>

definition spec_timestamp_token :: "string \<Rightarrow> error + string" where
  "spec_timestamp_token backup =
     (let segs = py_split (CHR ''_'') backup
      in if length segs < 2 then Inl IndexError else Inr (segs ! (length segs - 2)))"

text \<open>
  The decision rule of the copier as the specification words it, and the line the log
  must then hold for a file of the walk: copied to its destination, or no changes.
\<close>

definition spec_should_copy :: "datetime \<Rightarrow> datetime \<Rightarrow> bool" where
  "spec_should_copy last_modified watermark =
     (dt_less watermark last_modified \<or> watermark = datetime_min)"

definition expected_line ::
  "filesystem \<Rightarrow> path \<Rightarrow> path \<Rightarrow> datetime \<Rightarrow> datetime \<Rightarrow> path \<times> string \<Rightarrow> log_line" where
  "expected_line fs source_path backup_path watermark run_time rf =
     (case map_of fs (fst rf @ [snd rf]) of
        Some (File c m r) \<Rightarrow>
          if spec_should_copy m watermark
          then Backed_up (fst rf @ [snd rf])
                 (backup_file_path_of source_path backup_path run_time (fst rf) (snd rf))
          else No_changes (fst rf @ [snd rf])
      | _ \<Rightarrow> No_changes (fst rf @ [snd rf]))"




definition noon :: datetime where
  "noon = \<lparr>year = 2024, month = 1, day = 2, hour = 12, minute = 0, second = 0, microsecond = 0\<rparr>"

definition noon_plus_5s :: datetime where
  "noon_plus_5s = \<lparr>year = 2024, month = 1, day = 2, hour = 12, minute = 0, second = 5, microsecond = 0\<rparr>"

definition new_year :: datetime where
  "new_year = \<lparr>year = 2024, month = 1, day = 1, hour = 0, minute = 0, second = 0, microsecond = 0\<rparr>"

definition week_before :: datetime where
  "week_before = \<lparr>year = 2023, month = 12, day = 26, hour = 12, minute = 0, second = 0, microsecond = 0\<rparr>"

definition no_config :: config where
  "no_config = \<lparr>cfg_source_path = None, cfg_backup_path = None,
     cfg_backup_retention_time = None, cfg_second_stage_backup_interval = None,
     cfg_last_backup_time = None\<rparr>"

definition noon_plus_1s :: datetime where
  "noon_plus_1s = \<lparr>year = 2024, month = 1, day = 2, hour = 12, minute = 0, second = 1, microsecond = 0\<rparr>"

definition noon_minus_1s :: datetime where
  "noon_minus_1s = \<lparr>year = 2024, month = 1, day = 2, hour = 11, minute = 59, second = 59, microsecond = 0\<rparr>"

definition a_week :: timedelta where
  "a_week = \<lparr>days = 7, seconds = 0, microseconds = 0\<rparr>"

definition no_time :: timedelta where
  "no_time = \<lparr>days = 0, seconds = 0, microseconds = 0\<rparr>"

text \<open>A state whose clock reads noon of 2024-01-02 at the first call of
  \<^verbatim>\<open>datetime.now()\<close> and five seconds later at every later call.\<close>

definition copy_world :: "filesystem \<Rightarrow> world" where
  "copy_world fs = \<lparr>filesys = fs, clock = (\<lambda>k. if k = 0 then noon else noon_plus_5s),
     ticks = 0, log_lines = [], config_file = no_config\<rparr>"

text \<open>backup.conf of the scenario of the specification (retention 7d, second stage 0d),
  with or without a last backup time, and a state that holds it.\<close>

definition backup_conf :: "string option \<Rightarrow> config" where
  "backup_conf last_time =
     \<lparr>cfg_source_path = Some [''src''], cfg_backup_path = Some [''bk''],
      cfg_backup_retention_time = Some ''7d'', cfg_second_stage_backup_interval = Some ''0d'',
      cfg_last_backup_time = last_time\<rparr>"

definition conf_world :: "filesystem \<Rightarrow> string option \<Rightarrow> world" where
  "conf_world fs last_time =
     \<lparr>filesys = fs, clock = (\<lambda>k. if k = 0 then noon else noon_plus_5s),
      ticks = 0, log_lines = [], config_file = backup_conf last_time\<rparr>"

definition start_lines :: "log_line list" where
  "start_lines = [Info ''Starting backup process...'', Debug ''Source Path'',
     Debug ''Backup Path'', Debug ''Backup Retention Time'',
     Debug ''Second Stage Backup Interval'']"

text \<open>The source tree of the scenario of the specification: \<open>a.txt\<close>, modified on
  2024-01-01; and source trees with a second file.\<close>

definition tree_a :: filesystem where
  "tree_a = [([''src''], Dir), ([''src'', ''a.txt''], File ''hello'' new_year True),
             ([''bk''], Dir)]"

definition tree_old :: filesystem where
  "tree_old = tree_a @ [([''bk'', ''old_20000101000000''], Dir)]"

definition tree_ab :: "bool \<Rightarrow> datetime \<Rightarrow> datetime \<Rightarrow> filesystem" where
  "tree_ab readable_a mtime_a mtime_b =
     [([''src''], Dir), ([''src'', ''a.txt''], File ''hello'' mtime_a readable_a),
      ([''src'', ''b.txt''], File ''world'' mtime_b True), ([''bk''], Dir)]"

text \<open>A state whose clock stands at noon of 2024-01-02.\<close>

definition prune_world :: "filesystem \<Rightarrow> world" where
  "prune_world fs = \<lparr>filesys = fs, clock = (\<lambda>k. noon), ticks = 0, log_lines = [],
     config_file = no_config\<rparr>"

section \<open>Verification\<close>

subsection \<open>parse_timeframe\<close>

lemma digit_not_space: "py_isdigit c \<Longrightarrow> \<not> int_isspace c"
  by (auto simp: py_isdigit_def int_isspace_def)

lemma digit_not_sign:
  "py_isdigit c \<Longrightarrow> c \<noteq> CHR ''-'' \<and> c \<noteq> CHR ''+'' \<and> c \<noteq> CHR ''_''"
  by (auto simp: py_isdigit_def)

lemma dropWhile_id: "ds \<noteq> [] \<Longrightarrow> \<not> P (hd ds) \<Longrightarrow> dropWhile P ds = ds"
  by (cases ds) auto

lemma strip_digits:
  assumes "ds \<noteq> []" "list_all py_isdigit ds"
  shows "int_strip ds = ds"
proof -
  have h: "\<not> int_isspace (hd ds)"
    using assms by (cases ds) (auto simp: digit_not_space)
  have "py_isdigit (last ds)"
    using assms by (simp add: list_all_iff)
  then have l: "\<not> int_isspace (hd (rev ds))"
    using assms by (simp add: hd_rev digit_not_space)
  show ?thesis
    using assms h l by (simp add: int_strip_def dropWhile_id)
qed

lemma digits_no_double_underscore:
  "list_all py_isdigit ds \<Longrightarrow> \<not> double_underscore ds"
  by (induction ds rule: double_underscore.induct) (auto simp: digit_not_sign)

lemma digits_run:
  assumes "list_all py_isdigit ds"
  shows "takeWhile (\<lambda>c. py_isdigit c \<or> c = CHR ''_'') ds = ds"
    and "dropWhile (\<lambda>c. py_isdigit c \<or> c = CHR ''_'') ds = []"
    and "filter py_isdigit ds = ds"
  using assms by (simp_all add: list_all_iff takeWhile_eq_all_conv)

lemma py_int_body:
  assumes "ds \<noteq> []" "list_all py_isdigit ds"
  shows "py_int ds =
     (if length ds > max_str_digits
      then Inl (ValueError ''Exceeds the limit (4300 digits) for integer string conversion'')
      else Inr (dec_value ds))"
proof -
  have "py_isdigit (hd ds)" "py_isdigit (last ds)"
    using assms by (simp_all add: list_all_iff)
  then have "hd ds \<noteq> CHR ''-''" "hd ds \<noteq> CHR ''+''" "hd ds \<noteq> CHR ''_''" "last ds \<noteq> CHR ''_''"
    using digit_not_sign by auto
  then show ?thesis
    using assms
    by (simp add: py_int_def strip_digits digits_run digits_no_double_underscore)
qed

lemma digit_value_nonneg: "py_isdigit c \<Longrightarrow> 0 \<le> digit_value c"
  by (auto simp: py_isdigit_def digit_value_def)

lemma dec_value_nonneg:
  "list_all py_isdigit ds \<Longrightarrow> 0 \<le> a \<Longrightarrow> 0 \<le> foldl (\<lambda>a c. a * 10 + digit_value c) a ds"
proof (induction ds arbitrary: a)
  case Nil
  then show ?case by simp
next
  case (Cons c ds)
  then have "0 \<le> a * 10 + digit_value c"
    using digit_value_nonneg [of c] by simp
  with Cons show ?case by simp
qed

lemma py_timedelta_total:
  assumes "py_timedelta d h = Inr td"
  shows "total_seconds td = d * 86400 + h * 3600 \<and> 0 \<le> seconds td \<and> seconds td < 86400
         \<and> microseconds td = 0"
proof -
  have td: "td = \<lparr>days = d + h * 3600 div 86400, seconds = h * 3600 mod 86400, microseconds = 0\<rparr>"
    using assms by (simp add: py_timedelta_def Let_def split: if_splits)
  have "(d + h * 3600 div 86400) * 86400 + h * 3600 mod 86400 = d * 86400 + h * 3600"
    by (simp only: distrib_right add.assoc div_mult_mod_eq)
  then show ?thesis
    unfolding td total_seconds_def by simp
qed

lemma py_timedelta_defined:
  "\<bar>d + h * 3600 div 86400\<bar> \<le> 999999999 \<Longrightarrow> \<exists>td. py_timedelta d h = Inr td"
  by (simp add: py_timedelta_def Let_def)

text \<open>
  C8 (amended). A string of the form \<^verbatim>\<open>^\d+[hd]$\<close> with at most 4300 digits whose
  magnitude stays within the range of timedelta parses to the duration its digits and
  unit write; with more than 4300 digits int() refuses it. A string fails with the
  ValueError of int() when int() rejects its leading substring, and with the unit
  ValueError when int() accepts the leading substring and the last character is neither
  h nor d.
\<close>

theorem parse_timeframe_contract:
  "(matches_timespec s \<and> length (butlast s) \<le> 4300
      \<and> dec_value (butlast s) * unit_seconds (last s) div 86400 \<le> 999999999 \<longrightarrow>
      (\<exists>td. parse_timeframe s = Inr td
         \<and> total_seconds td = dec_value (butlast s) * unit_seconds (last s)
         \<and> 0 \<le> seconds td \<and> seconds td < 86400 \<and> microseconds td = 0))
   \<and> (matches_timespec s \<and> length (butlast s) > 4300 \<longrightarrow>
        parse_timeframe s
          = Inl (ValueError ''Exceeds the limit (4300 digits) for integer string conversion''))
   \<and> (py_int (butlast s) = Inl e \<longrightarrow> parse_timeframe s = Inl e)
   \<and> (py_int (butlast s) = Inr n \<and> s \<noteq> [] \<and> last s \<noteq> CHR ''h'' \<and> last s \<noteq> CHR ''d'' \<longrightarrow>
        parse_timeframe s = Inl (ValueError ''Invalid time frame unit''))"
proof (intro conjI impI)
  assume a: "matches_timespec s \<and> length (butlast s) \<le> 4300
      \<and> dec_value (butlast s) * unit_seconds (last s) div 86400 \<le> 999999999"
  let ?v = "dec_value (butlast s)"
  from a have ne: "s \<noteq> []" "butlast s \<noteq> []" and dg: "list_all py_isdigit (butlast s)"
    and u: "last s = CHR ''h'' \<or> last s = CHR ''d''"
    by (auto simp: matches_timespec_def)
  have pi: "py_int (butlast s) = Inr ?v"
    using py_int_body [OF ne(2) dg] a by (simp add: max_str_digits_def)
  have nn: "0 \<le> ?v"
    using dg by (simp add: dec_value_def dec_value_nonneg)
  from u show "\<exists>td. parse_timeframe s = Inr td
         \<and> total_seconds td = ?v * unit_seconds (last s)
         \<and> 0 \<le> seconds td \<and> seconds td < 86400 \<and> microseconds td = 0"
  proof
    assume h: "last s = CHR ''h''"
    have "0 \<le> ?v * 3600 div 86400"
      using nn by (simp add: pos_imp_zdiv_nonneg_iff)
    moreover have "?v * 3600 div 86400 \<le> 999999999"
      using a h by (simp add: unit_seconds_def)
    ultimately have "\<bar>0 + ?v * 3600 div 86400\<bar> \<le> 999999999"
      by linarith
    then obtain td where td: "py_timedelta 0 ?v = Inr td"
      using py_timedelta_defined by blast
    have p: "parse_timeframe s = Inr td"
      using ne pi h td by (simp add: parse_timeframe_def)
    show ?thesis
      using p py_timedelta_total [OF td] h by (simp add: unit_seconds_def)
  next
    assume d: "last s = CHR ''d''"
    have "?v \<le> 999999999"
      using a d by (simp add: unit_seconds_def)
    then have "\<bar>?v + 0 * 3600 div 86400\<bar> \<le> 999999999"
      using nn by simp
    then obtain td where td: "py_timedelta ?v 0 = Inr td"
      using py_timedelta_defined by blast
    have p: "parse_timeframe s = Inr td"
      using ne pi d td by (simp add: parse_timeframe_def)
    show ?thesis
      using p py_timedelta_total [OF td] d by (simp add: unit_seconds_def)
  qed
next
  assume a: "matches_timespec s \<and> length (butlast s) > 4300"
  then have ne: "butlast s \<noteq> []" and dg: "list_all py_isdigit (butlast s)"
    by (auto simp: matches_timespec_def)
  have "py_int (butlast s)
      = Inl (ValueError ''Exceeds the limit (4300 digits) for integer string conversion'')"
    using py_int_body [OF ne dg] a by (simp add: max_str_digits_def)
  then show "parse_timeframe s
      = Inl (ValueError ''Exceeds the limit (4300 digits) for integer string conversion'')"
    by (simp add: parse_timeframe_def)
next
  assume "py_int (butlast s) = Inl e"
  then show "parse_timeframe s = Inl e"
    by (simp add: parse_timeframe_def)
next
  assume "py_int (butlast s) = Inr n \<and> s \<noteq> [] \<and> last s \<noteq> CHR ''h'' \<and> last s \<noteq> CHR ''d''"
  then show "parse_timeframe s = Inl (ValueError ''Invalid time frame unit'')"
    by (simp add: parse_timeframe_def)
qed

lemmas int_eval = py_int_def int_strip_def int_isspace_def py_isdigit_def digit_value_def
  dec_value_def max_str_digits_def

theorem parse_timeframe_contract_witness:
  "(\<exists>td. parse_timeframe ''36h'' = Inr td \<and> total_seconds td = 129600
       \<and> 0 \<le> seconds td \<and> seconds td < 86400 \<and> microseconds td = 0)
   \<and> parse_timeframe (replicate 4301 (CHR ''0'') @ ''d'')
       = Inl (ValueError ''Exceeds the limit (4300 digits) for integer string conversion'')
   \<and> parse_timeframe ''x7d'' = Inl (ValueError ''invalid literal for int() with base 10'')
   \<and> parse_timeframe ''7w'' = Inl (ValueError ''Invalid time frame unit'')"
proof -
  have m: "matches_timespec ''36h''"
    by (simp add: matches_timespec_def py_isdigit_def)
  have v: "dec_value (butlast ''36h'') = 36"
    by (simp add: dec_value_def digit_value_def)
  have u: "unit_seconds (last ''36h'') = 3600"
    by (simp add: unit_seconds_def)
  have ml: "matches_timespec (replicate 4301 (CHR ''0'') @ ''d'')
      \<and> length (butlast (replicate 4301 (CHR ''0'') @ ''d'')) > 4300"
    by (simp add: matches_timespec_def butlast_append list_all_iff py_isdigit_def)
  have i1: "py_int (butlast ''x7d'') = Inl (ValueError ''invalid literal for int() with base 10'')"
    by (simp add: int_eval)
  have i2: "py_int (butlast ''7w'') = Inr 7"
    by (simp add: int_eval)
  have p1: "\<exists>td. parse_timeframe ''36h'' = Inr td \<and> total_seconds td = 129600
       \<and> 0 \<le> seconds td \<and> seconds td < 86400 \<and> microseconds td = 0"
    using parse_timeframe_contract [of "''36h''" undefined undefined] m
    by (simp only: v u) simp
  have p1b: "parse_timeframe (replicate 4301 (CHR ''0'') @ ''d'')
       = Inl (ValueError ''Exceeds the limit (4300 digits) for integer string conversion'')"
    using parse_timeframe_contract [of "replicate 4301 (CHR ''0'') @ ''d''" undefined undefined] ml
    by blast
  have p2: "parse_timeframe ''x7d'' = Inl (ValueError ''invalid literal for int() with base 10'')"
    using parse_timeframe_contract [of "''x7d''" "ValueError ''invalid literal for int() with base 10''" undefined] i1
    by blast
  have p3: "parse_timeframe ''7w'' = Inl (ValueError ''Invalid time frame unit'')"
    using parse_timeframe_contract [of "''7w''" undefined 7] i2 by simp
  from p1 p1b p2 p3 show ?thesis by blast
qed

text \<open>
  C8 as stated fails: int() accepts a sign, so \<^verbatim>\<open>-5d\<close>, which is not of the form
  \<^verbatim>\<open>^\d+[hd]$\<close>, parses, and to a negative duration.
\<close>

theorem parse_timeframe_counterexample:
  "\<not> matches_timespec ''-5d''
   \<and> parse_timeframe ''-5d'' = Inr \<lparr>days = - 5, seconds = 0, microseconds = 0\<rparr>"
  by (simp add: matches_timespec_def parse_timeframe_def int_eval py_timedelta_def)

text \<open>The code point 28 (a file separator) before a digit is no white space for int().\<close>

lemma py_int_rejects_fs:
  "py_int [Char False False True True True False False False, CHR ''5'']
     = Inl (ValueError ''invalid literal for int() with base 10'')"
  by (simp add: int_eval)

lemma py_int_samples:
  "py_int '' 1_0'' = Inr 10"
  "py_int ''1__0'' = Inl (ValueError ''invalid literal for int() with base 10'')"
  "py_int ''10_'' = Inl (ValueError ''invalid literal for int() with base 10'')"
  "py_int ''+007 '' = Inr 7"
  "py_int '''' = Inl (ValueError ''invalid literal for int() with base 10'')"
  by (simp_all add: int_eval)

subsection \<open>remove_old_backups\<close>

lemma map_of_filter_key:
  "map_of (filter (\<lambda>(q, n). P q) fs) k = (if P k then map_of fs k else None)"
  by (induction fs) auto

lemma rmtree_effect:
  assumes "rmtree p fs = Inr fs'"
  shows "map_of fs' q = (if prefix p q then None else map_of fs q)"
proof -
  have "fs' = filter (\<lambda>(q, n). \<not> prefix p q) fs"
    using assms by (simp add: rmtree_def split: if_splits)
  then show ?thesis
    by (simp add: map_of_filter_key)
qed

lemma rmtree_is_dir:
  "rmtree p fs = Inr fs' \<Longrightarrow> map_of fs p = Some Dir"
  by (simp add: rmtree_def split: if_splits)

lemma datetime_now_simps:
  "fst (datetime_now w) = clock w (ticks w)"
  "filesys (snd (datetime_now w)) = filesys w"
  "clock (snd (datetime_now w)) = clock w"
  "ticks (snd (datetime_now w)) = Suc (ticks w)"
  "log_lines (snd (datetime_now w)) = log_lines w"
  "config_file (snd (datetime_now w)) = config_file w"
  by (simp_all add: datetime_now_def)

lemma remove_one_cases:
  assumes "remove_one bp old iv b w = (r, w')"
  shows "(\<exists>e. backup_time_of b = Inl e \<and> r = Inl e \<and> w' = w)
       \<or> (\<exists>t. backup_time_of b = Inr t \<and> \<not> dt_less t old \<and> r = Inr () \<and> w' = w)
       \<or> (\<exists>t. backup_time_of b = Inr t \<and> dt_less t old \<and> iv > 0
              \<and> days (dt_sub (clock w (ticks w)) t) mod iv = 0
              \<and> r = Inr () \<and> w' = snd (datetime_now w))
       \<or> (\<exists>t w1. backup_time_of b = Inr t \<and> dt_less t old
              \<and> \<not> (iv > 0 \<and> days (dt_sub (clock w (ticks w)) t) mod iv = 0)
              \<and> w1 = (if iv > 0 then snd (datetime_now w) else w)
              \<and> ((\<exists>e. rmtree (bp @ [b]) (filesys w) = Inl e \<and> r = Inl e \<and> w' = w1)
                 \<or> (\<exists>fs'. rmtree (bp @ [b]) (filesys w) = Inr fs' \<and> r = Inr ()
                      \<and> w' = w1\<lparr>filesys := fs', log_lines := log_lines w1 @ [Removed_backup (bp @ [b])]\<rparr>)))"
proof (cases "backup_time_of b")
  case (Inl e)
  then show ?thesis using assms by (simp add: remove_one_def)
next
  case (Inr t)
  show ?thesis
  proof (cases "dt_less t old")
    case False
    then show ?thesis using assms Inr by (simp add: remove_one_def)
  next
    case True
    show ?thesis
    proof (cases "iv > 0 \<and> days (dt_sub (clock w (ticks w)) t) mod iv = 0")
      case sp: True
      then show ?thesis using assms Inr True
        by (simp add: remove_one_def datetime_now_simps Let_def)
    next
      case nsp: False
      have fsw: "filesys (if iv > 0 then snd (datetime_now w) else w) = filesys w"
        by (simp add: datetime_now_simps)
      show ?thesis
      proof (cases "rmtree (bp @ [b]) (filesys w)")
        case (Inl e)
        then show ?thesis using assms Inr True nsp fsw
          by (auto simp add: remove_one_def datetime_now_simps Let_def)
      next
        case rr: (Inr fs')
        then show ?thesis using assms Inr True nsp fsw
          by (auto simp add: remove_one_def datetime_now_simps Let_def)
      qed
    qed
  qed
qed


lemma remove_one_frame:
  assumes "remove_one bp old iv b w = (r, w')"
  shows "map_of (filesys w') q = map_of (filesys w) q
       \<or> (map_of (filesys w') q = None \<and> prefix (bp @ [b]) q
            \<and> (\<exists>t. backup_time_of b = Inr t \<and> dt_less t old))"
  using remove_one_cases [OF assms]
  by (elim disjE exE conjE) (auto simp: datetime_now_simps rmtree_effect)

lemma remove_one_clock:
  assumes "remove_one bp old iv b w = (r, w')"
  shows "clock w' = clock w \<and> ticks w \<le> ticks w'"
  using remove_one_cases [OF assms]
  by (elim disjE exE conjE) (auto simp: datetime_now_simps)

lemma remove_loop_frame:
  "remove_loop bp old iv names w = (r, w') \<Longrightarrow>
   map_of (filesys w') q = map_of (filesys w) q
   \<or> (map_of (filesys w') q = None
        \<and> (\<exists>b \<in> set names. prefix (bp @ [b]) q \<and> (\<exists>t. backup_time_of b = Inr t \<and> dt_less t old)))"
proof (induction names arbitrary: w)
  case Nil
  then show ?case by simp
next
  case (Cons b rest)
  obtain r1 w1 where one: "remove_one bp old iv b w = (r1, w1)"
    by (cases "remove_one bp old iv b w")
  note f1 = remove_one_frame [OF one, of q]
  show ?case
  proof (cases r1)
    case (Inl e)
    then have "w' = w1" using Cons.prems one by simp
    then show ?thesis using f1 by auto
  next
    case (Inr u)
    then have "remove_loop bp old iv rest w1 = (r, w')"
      using Cons.prems one by simp
    from Cons.IH [OF this] f1 show ?thesis by auto
  qed
qed

lemma remove_loop_clock:
  "remove_loop bp old iv names w = (r, w') \<Longrightarrow> clock w' = clock w \<and> ticks w \<le> ticks w'"
proof (induction names arbitrary: w)
  case Nil
  then show ?case by simp
next
  case (Cons b rest)
  obtain r1 w1 where one: "remove_one bp old iv b w = (r1, w1)"
    by (cases "remove_one bp old iv b w")
  note c1 = remove_one_clock [OF one]
  show ?case
  proof (cases r1)
    case (Inl e)
    then have "w' = w1" using Cons.prems one by simp
    then show ?thesis using c1 by simp
  next
    case (Inr u)
    then have "remove_loop bp old iv rest w1 = (r, w')"
      using Cons.prems one by simp
    from Cons.IH [OF this] c1 show ?thesis by simp
  qed
qed

lemma remove_loop_append:
  "remove_loop bp old iv (xs @ ys) w =
     (case remove_loop bp old iv xs w of
        (Inl e, w') \<Rightarrow> (Inl e, w')
      | (Inr u, w') \<Rightarrow> remove_loop bp old iv ys w')"
  by (induction xs arbitrary: w) (auto split: prod.splits sum.splits)

lemma prefix_entry_disjoint:
  assumes "prefix (bp @ [b]) q" "prefix (bp @ [n]) q"
  shows "b = n"
proof -
  from assms obtain r1 r2 where "q = bp @ [b] @ r1" "q = bp @ [n] @ r2"
    by (auto simp: prefix_def)
  then show ?thesis by simp
qed

text \<open>
  The entries whose timestamp is not before the cutoff, and those with no timestamp, are
  left as they were, with everything below them.
\<close>

lemma pruner_keeps_entry:
  assumes "remove_old_backups bp old iv w = (r, w')"
    and "backup_time_of n = Inl e \<or> (\<exists>t. backup_time_of n = Inr t \<and> \<not> dt_less t old)"
    and "prefix (bp @ [n]) q"
  shows "map_of (filesys w') q = map_of (filesys w) q"
proof (cases "listdir bp (filesys w)")
  case (Inl e)
  then show ?thesis using assms(1) by (simp add: remove_old_backups_def)
next
  case (Inr names)
  then have "remove_loop bp old iv names w = (r, w')"
    using assms(1) by (simp add: remove_old_backups_def)
  from remove_loop_frame [OF this, of q] show ?thesis
  proof
    assume "map_of (filesys w') q = map_of (filesys w) q"
    then show ?thesis .
  next
    assume "map_of (filesys w') q = None
      \<and> (\<exists>b \<in> set names. prefix (bp @ [b]) q \<and> (\<exists>t. backup_time_of b = Inr t \<and> dt_less t old))"
    then obtain b t' where b: "prefix (bp @ [b]) q" "backup_time_of b = Inr t'" "dt_less t' old"
      by blast
    have "b = n" using b(1) assms(3) by (rule prefix_entry_disjoint)
    then show ?thesis using b assms(2) by auto
  qed
qed

lemma backup_time_of_segment:
  "backup_time_of n =
     (if length (py_split (CHR ''_'') n) < 2 then Inl IndexError
      else strptime (py_split (CHR ''_'') n ! 1) fmt_compact)"
proof (cases "py_split (CHR ''_'') n")
  case Nil
  then show ?thesis by (simp add: backup_time_of_def)
next
  case (Cons a rest)
  then show ?thesis by (cases rest) (simp_all add: backup_time_of_def)
qed

text \<open>
  C6 (amended). Whatever the policy and the state, and whether the run ends normally or
  with an error, a run of the pruner changes the tree only by deleting, and every path
  it deletes is an entry of the backup directory, or lies below one, whose name has a
  second underscore-delimited segment that strptime reads as a timestamp before the
  cutoff \<open>old\<close> (the caller's now - retention_window). The timestamp is that of the name
  of the entry, not of what stands below it.
\<close>

theorem pruner_keeps_recent:
  assumes "remove_old_backups bp old iv w = (r, w')"
    and "map_of (filesys w') q \<noteq> map_of (filesys w) q"
  shows "map_of (filesys w') q = None
       \<and> (\<exists>n t. prefix (bp @ [n]) q \<and> 2 \<le> length (py_split (CHR ''_'') n)
              \<and> strptime (py_split (CHR ''_'') n ! 1) fmt_compact = Inr t \<and> dt_less t old)"
proof (cases "listdir bp (filesys w)")
  case (Inl e)
  then show ?thesis using assms by (simp add: remove_old_backups_def)
next
  case (Inr names)
  then have "remove_loop bp old iv names w = (r, w')"
    using assms(1) by (simp add: remove_old_backups_def)
  from remove_loop_frame [OF this, of q] assms(2)
  obtain b t where b: "map_of (filesys w') q = None" "prefix (bp @ [b]) q"
    "backup_time_of b = Inr t" "dt_less t old"
    by auto
  have "2 \<le> length (py_split (CHR ''_'') b)
      \<and> strptime (py_split (CHR ''_'') b ! 1) fmt_compact = Inr t"
    using b(3) backup_time_of_segment [of b] by (simp split: if_splits)
  with b show ?thesis by blast
qed

text \<open>
  C4 (amended). The timestamp is read from the second segment of the name (index 1 of
  the split at underscores). An entry with no second segment, or whose second segment
  strptime rejects, raises IndexError or ValueError; nothing catches it, so the run ends
  there with that error, in the state reached after the entries listed before it, and
  the entries listed after it are not processed. The entry itself, with everything below
  it, is left as it was.
\<close>

theorem pruner_unparseable_aborts:
  assumes "listdir bp (filesys w) = Inr (pre @ n # post)"
    and "remove_loop bp old iv pre w = (Inr (), w1)"
    and "backup_time_of n = Inl e"
  shows "remove_old_backups bp old iv w = (Inl e, w1)
       \<and> (\<forall>q. prefix (bp @ [n]) q \<longrightarrow> map_of (filesys w1) q = map_of (filesys w) q)
       \<and> (if length (py_split (CHR ''_'') n) < 2 then e = IndexError
          else strptime (py_split (CHR ''_'') n ! 1) fmt_compact = Inl e)"
proof (intro conjI)
  have "remove_one bp old iv n w1 = (Inl e, w1)"
    using assms(3) by (simp add: remove_one_def)
  then show "remove_old_backups bp old iv w = (Inl e, w1)"
    using assms(1,2) by (simp add: remove_old_backups_def remove_loop_append)
next
  show "\<forall>q. prefix (bp @ [n]) q \<longrightarrow> map_of (filesys w1) q = map_of (filesys w) q"
  proof (intro allI impI)
    fix q assume q: "prefix (bp @ [n]) q"
    from remove_loop_frame [OF assms(2), of q] show "map_of (filesys w1) q = map_of (filesys w) q"
    proof
      assume "map_of (filesys w1) q = map_of (filesys w) q"
      then show ?thesis .
    next
      assume "map_of (filesys w1) q = None
        \<and> (\<exists>b \<in> set pre. prefix (bp @ [b]) q \<and> (\<exists>t. backup_time_of b = Inr t \<and> dt_less t old))"
      then obtain b t where b: "prefix (bp @ [b]) q" "backup_time_of b = Inr t"
        by blast
      have "b = n" using b(1) q by (rule prefix_entry_disjoint)
      then show ?thesis using b(2) assms(3) by simp
    qed
  qed
next
  show "if length (py_split (CHR ''_'') n) < 2 then e = IndexError
        else strptime (py_split (CHR ''_'') n ! 1) fmt_compact = Inl e"
    using assms(3) backup_time_of_segment [of n] by (simp split: if_splits)
qed

lemma listdir_present:
  assumes "listdir bp fs = Inr names" "n \<in> set names"
  shows "map_of fs (bp @ [n]) \<noteq> None"
proof -
  have "names = map (\<lambda>(q, nd). last q) (filter (\<lambda>(q, nd). q \<noteq> [] \<and> butlast q = bp) fs)"
    using assms(1) by (simp add: listdir_def split: if_splits)
  with assms(2) obtain q nd where q: "(q, nd) \<in> set fs" "q \<noteq> []" "butlast q = bp" "last q = n"
    by auto
  then have "q = bp @ [n]"
    using append_butlast_last_id [of q] by simp
  with q(1) have "bp @ [n] \<in> fst ` set fs"
    by force
  then show ?thesis
    by (simp add: map_of_eq_None_iff)
qed

lemma remove_loop_decision:
  assumes "remove_loop bp old iv names w = (Inr (), w')"
    and "n \<in> set names"
    and "map_of (filesys w) (bp @ [n]) \<noteq> None"
    and "backup_time_of n = Inr t"
    and "dt_less t old"
    and "\<forall>k \<ge> ticks w. days (dt_sub (clock w k) t) = age"
  shows "map_of (filesys w') (bp @ [n]) = None \<longleftrightarrow> \<not> (iv > 0 \<and> age mod iv = 0)"
  using assms
proof (induction names arbitrary: w)
  case Nil
  then show ?case by simp
next
  case (Cons b rest)
  obtain r1 w1 where one: "remove_one bp old iv b w = (r1, w1)"
    by (cases "remove_one bp old iv b w")
  have r1: "r1 = Inr ()" and rest: "remove_loop bp old iv rest w1 = (Inr (), w')"
    using Cons.prems(1) one by (auto split: sum.splits)
  note clk = remove_one_clock [OF one]
  have age1: "\<forall>k \<ge> ticks w1. days (dt_sub (clock w1 k) t) = age"
    using Cons.prems(6) clk by simp
  have age0: "days (dt_sub (clock w (ticks w)) t) = age"
    using Cons.prems(6) by simp
  note fr = remove_loop_frame [OF rest, of "bp @ [n]"]
  show ?case
  proof (cases "b = n")
    case False
    then have nin: "n \<in> set rest" using Cons.prems(2) by simp
    have "map_of (filesys w1) (bp @ [n]) = map_of (filesys w) (bp @ [n])"
      using remove_one_frame [OF one, of "bp @ [n]"] False by auto
    then have "map_of (filesys w1) (bp @ [n]) \<noteq> None"
      using Cons.prems(3) by simp
    from Cons.IH [OF rest nin this Cons.prems(4,5) age1] show ?thesis .
  next
    case True
    show ?thesis
    proof (cases "iv > 0 \<and> age mod iv = 0")
      case sp: True
      have fs1: "filesys w1 = filesys w"
        using remove_one_cases [OF one] True Cons.prems(4,5) age0 sp
        by (auto simp: datetime_now_simps)
      then have pres: "map_of (filesys w1) (bp @ [n]) \<noteq> None"
        using Cons.prems(3) by simp
      show ?thesis
      proof (cases "n \<in> set rest")
        case True
        from Cons.IH [OF rest True pres Cons.prems(4,5) age1] show ?thesis .
      next
        case False
        then have "map_of (filesys w') (bp @ [n]) = map_of (filesys w1) (bp @ [n])"
          using fr by auto
        then show ?thesis using pres sp by simp
      qed
    next
      case nsp: False
      have "map_of (filesys w1) (bp @ [n]) = None"
        using remove_one_cases [OF one] True Cons.prems(4,5) age0 nsp r1
        by (auto simp: datetime_now_simps rmtree_effect)
      then have "map_of (filesys w') (bp @ [n]) = None"
        using fr by auto
      then show ?thesis using nsp by simp
    qed
  qed
qed

text \<open>
  In a run of the pruner that ends normally, an entry of the listing whose timestamp is
  before the cutoff is gone at the end unless the interval is positive and the whole
  days between the clock and the timestamp are a multiple of the interval.
\<close>

lemma pruner_normal_run:
  assumes "remove_old_backups bp old iv w = (Inr (), w')"
    and "listdir bp (filesys w) = Inr names"
    and "n \<in> set names"
    and "backup_time_of n = Inr t"
    and "dt_less t old"
    and "\<forall>k \<ge> ticks w. days (dt_sub (clock w k) t) = age"
  shows "map_of (filesys w') (bp @ [n]) = None \<longleftrightarrow> \<not> (iv > 0 \<and> age mod iv = 0)"
proof -
  have loop: "remove_loop bp old iv names w = (Inr (), w')"
    using assms(1,2) by (simp add: remove_old_backups_def)
  have "map_of (filesys w) (bp @ [n]) \<noteq> None"
    using assms(2,3) by (rule listdir_present)
  from remove_loop_decision [OF loop assms(3) this assms(4,5,6)] show ?thesis .
qed


subsection \<open>Runs of the pruner on concrete directories\<close>

lemmas time_eval = strptime_def match_directive_def datetime_new_def field_value_def
  fmt_compact_def fmt_config_def cs_digit_def py_isspace_def int_eval
  days_in_month_def is_leap_def dt_less_def dt_key_def
  dt_sub_def toordinal_def days_before_year_def days_before_month_def datetime_min_def
  strftime_def pad2_def pad4_def digit_char_def noon_def week_before_def new_year_def
  noon_plus_5s_def

lemmas fs_eval = listdir_def isdir_def path_exists_def rmtree_def mkdir_def makedirs_def
  copy2_def getmtime_def fs_write_def os_walk_def

lemmas prune_eval = remove_old_backups_def remove_one_def backup_time_of_def datetime_now_def
  prune_world_def no_config_def



lemma backup_time_of_jan1:
  "backup_time_of ''c_20240101000000'' = Inr new_year"
  by (simp add: backup_time_of_def time_eval)

lemma backup_time_of_notimestamp: "backup_time_of ''notimestamp'' = Inl IndexError"
  by (simp add: backup_time_of_def)

theorem pruner_keeps_recent_witness:
  "map_of (filesys (snd (remove_old_backups [''bk''] week_before 0
        (prune_world [([''bk''], Dir), ([''bk'', ''a_20231201000000''], Dir),
                      ([''bk'', ''c_20240101000000''], Dir)]))))
        [''bk'', ''a_20231201000000''] = None
   \<and> (\<exists>n t. prefix ([''bk''] @ [n]) [''bk'', ''a_20231201000000'']
          \<and> 2 \<le> length (py_split (CHR ''_'') n)
          \<and> strptime (py_split (CHR ''_'') n ! 1) fmt_compact = Inr t \<and> dt_less t week_before)"
proof -
  let ?w = "prune_world [([''bk''], Dir), ([''bk'', ''a_20231201000000''], Dir),
                      ([''bk'', ''c_20240101000000''], Dir)]"
  have run: "remove_old_backups [''bk''] week_before 0 ?w
      = (fst (remove_old_backups [''bk''] week_before 0 ?w),
         snd (remove_old_backups [''bk''] week_before 0 ?w))"
    by simp
  have "map_of (filesys (snd (remove_old_backups [''bk''] week_before 0 ?w)))
          [''bk'', ''a_20231201000000''] = None"
    by (simp add: prune_eval fs_eval time_eval)
  moreover have "map_of (filesys ?w) [''bk'', ''a_20231201000000''] = Some Dir"
    by (simp add: prune_world_def)
  ultimately have ch: "map_of (filesys (snd (remove_old_backups [''bk''] week_before 0 ?w)))
          [''bk'', ''a_20231201000000''] \<noteq> map_of (filesys ?w) [''bk'', ''a_20231201000000'']"
    by simp
  from pruner_keeps_recent [OF run ch] show ?thesis .
qed

text \<open>
  C6 as stated fails. The run timestamp embedded in \<open>x_20000101000000_20240102110000_z\<close>,
  its second-to-last segment, is an hour before noon and so not before the cutoff, yet the
  entry is deleted: the code reads the second segment. And a copy made an hour before
  noon that stands in the directory \<open>x_20000101000000\<close> is deleted with the directory.
\<close>

theorem pruner_keeps_recent_counterexample:
  "spec_timestamp_token ''x_20000101000000_20240102110000_z'' = Inr ''20240102110000''
   \<and> strptime ''20240102110000'' fmt_compact
       = Inr \<lparr>year = 2024, month = 1, day = 2, hour = 11, minute = 0, second = 0, microsecond = 0\<rparr>
   \<and> \<not> dt_less \<lparr>year = 2024, month = 1, day = 2, hour = 11, minute = 0, second = 0, microsecond = 0\<rparr>
          week_before
   \<and> remove_old_backups [''bk''] week_before 0
        (prune_world [([''bk''], Dir), ([''bk'', ''x_20000101000000_20240102110000_z''], Dir)])
      = (Inr (), (prune_world [([''bk''], Dir)])
           \<lparr>log_lines := [Removed_backup [''bk'', ''x_20000101000000_20240102110000_z'']]\<rparr>)
   \<and> remove_old_backups [''bk''] week_before 0
        (prune_world [([''bk''], Dir), ([''bk'', ''x_20000101000000''], Dir),
           ([''bk'', ''x_20000101000000'', ''x_20000101000000_20240102110000''],
            File ''hello'' new_year True)])
      = (Inr (), (prune_world [([''bk''], Dir)])
           \<lparr>log_lines := [Removed_backup [''bk'', ''x_20000101000000'']]\<rparr>)"
proof (intro conjI)
  show "spec_timestamp_token ''x_20000101000000_20240102110000_z'' = Inr ''20240102110000''"
    by (simp add: spec_timestamp_token_def)
  show "strptime ''20240102110000'' fmt_compact
       = Inr \<lparr>year = 2024, month = 1, day = 2, hour = 11, minute = 0, second = 0, microsecond = 0\<rparr>"
    by (simp add: time_eval)
  show "\<not> dt_less \<lparr>year = 2024, month = 1, day = 2, hour = 11, minute = 0, second = 0, microsecond = 0\<rparr>
          week_before"
    by (simp add: time_eval)
  show "remove_old_backups [''bk''] week_before 0
        (prune_world [([''bk''], Dir), ([''bk'', ''x_20000101000000_20240102110000_z''], Dir)])
      = (Inr (), (prune_world [([''bk''], Dir)])
           \<lparr>log_lines := [Removed_backup [''bk'', ''x_20000101000000_20240102110000_z'']]\<rparr>)"
    by (simp add: prune_eval fs_eval time_eval)
  show "remove_old_backups [''bk''] week_before 0
        (prune_world [([''bk''], Dir), ([''bk'', ''x_20000101000000''], Dir),
           ([''bk'', ''x_20000101000000'', ''x_20000101000000_20240102110000''],
            File ''hello'' new_year True)])
      = (Inr (), (prune_world [([''bk''], Dir)])
           \<lparr>log_lines := [Removed_backup [''bk'', ''x_20000101000000'']]\<rparr>)"
    by (simp add: prune_eval fs_eval time_eval)
qed



theorem pruner_unparseable_aborts_witness:
  "remove_old_backups [''bk''] week_before 0
      (prune_world [([''bk''], Dir), ([''bk'', ''a_20231201000000''], Dir),
         ([''bk'', ''notimestamp''], Dir), ([''bk'', ''b_20231203000000''], Dir)])
     = (Inl IndexError,
        (prune_world [([''bk''], Dir), ([''bk'', ''notimestamp''], Dir),
           ([''bk'', ''b_20231203000000''], Dir)])
          \<lparr>log_lines := [Removed_backup [''bk'', ''a_20231201000000'']]\<rparr>)"
proof -
  let ?w = "prune_world [([''bk''], Dir), ([''bk'', ''a_20231201000000''], Dir),
         ([''bk'', ''notimestamp''], Dir), ([''bk'', ''b_20231203000000''], Dir)]"
  let ?w1 = "(prune_world [([''bk''], Dir), ([''bk'', ''notimestamp''], Dir),
           ([''bk'', ''b_20231203000000''], Dir)])
          \<lparr>log_lines := [Removed_backup [''bk'', ''a_20231201000000'']]\<rparr>"
  have ls: "listdir [''bk''] (filesys ?w)
      = Inr ([''a_20231201000000''] @ ''notimestamp'' # [''b_20231203000000''])"
    by (simp add: prune_world_def fs_eval)
  have pre: "remove_loop [''bk''] week_before 0 [''a_20231201000000''] ?w = (Inr (), ?w1)"
    by (simp add: prune_eval fs_eval time_eval)
  from pruner_unparseable_aborts [OF ls pre backup_time_of_notimestamp]
  show ?thesis by blast
qed

text \<open>
  C4 as stated fails. The entry \<open>notimestamp\<close> raises IndexError and the run ends: the
  entry listed after it, past the cutoff and with no second stage, is not processed and
  stays. And \<open>x_20000101000000_y_z\<close>, whose second-to-last segment \<open>y\<close> is no
  timestamp, is deleted, because the code reads the second segment.
\<close>

theorem pruner_unparseable_counterexample:
  "fst (remove_old_backups [''bk''] week_before 0
      (prune_world [([''bk''], Dir), ([''bk'', ''notimestamp''], Dir),
         ([''bk'', ''a_20231201000000''], Dir)])) = Inl IndexError
   \<and> map_of (filesys (snd (remove_old_backups [''bk''] week_before 0
        (prune_world [([''bk''], Dir), ([''bk'', ''notimestamp''], Dir),
           ([''bk'', ''a_20231201000000''], Dir)])))) [''bk'', ''a_20231201000000''] = Some Dir
   \<and> dt_less \<lparr>year = 2023, month = 12, day = 1, hour = 0, minute = 0, second = 0, microsecond = 0\<rparr>
        week_before
   \<and> spec_timestamp_token ''x_20000101000000_y_z'' = Inr ''y''
   \<and> strptime ''y'' fmt_compact = Inl (ValueError ''time data does not match format'')
   \<and> remove_old_backups [''bk''] week_before 0
        (prune_world [([''bk''], Dir), ([''bk'', ''x_20000101000000_y_z''], Dir)])
      = (Inr (), (prune_world [([''bk''], Dir)])
           \<lparr>log_lines := [Removed_backup [''bk'', ''x_20000101000000_y_z'']]\<rparr>)"
proof (intro conjI)
  show "fst (remove_old_backups [''bk''] week_before 0
      (prune_world [([''bk''], Dir), ([''bk'', ''notimestamp''], Dir),
         ([''bk'', ''a_20231201000000''], Dir)])) = Inl IndexError"
    by (simp add: prune_eval fs_eval)
  show "map_of (filesys (snd (remove_old_backups [''bk''] week_before 0
        (prune_world [([''bk''], Dir), ([''bk'', ''notimestamp''], Dir),
           ([''bk'', ''a_20231201000000''], Dir)])))) [''bk'', ''a_20231201000000''] = Some Dir"
    by (simp add: prune_eval fs_eval)
  show "dt_less \<lparr>year = 2023, month = 12, day = 1, hour = 0, minute = 0, second = 0, microsecond = 0\<rparr>
        week_before"
    by (simp add: time_eval)
  show "spec_timestamp_token ''x_20000101000000_y_z'' = Inr ''y''"
    by (simp add: spec_timestamp_token_def)
  show "strptime ''y'' fmt_compact = Inl (ValueError ''time data does not match format'')"
    by (simp add: time_eval)
  show "remove_old_backups [''bk''] week_before 0
        (prune_world [([''bk''], Dir), ([''bk'', ''x_20000101000000_y_z''], Dir)])
      = (Inr (), (prune_world [([''bk''], Dir)])
           \<lparr>log_lines := [Removed_backup [''bk'', ''x_20000101000000_y_z'']]\<rparr>)"
    by (simp add: prune_eval fs_eval time_eval)
qed

subsection \<open>create_backup\<close>

lemma map_of_fs_write:
  "map_of (fs_write p n fs) q = (if q = p then Some n else map_of fs q)"
proof (cases "map_of fs p")
  case None
  then show ?thesis by (auto simp: fs_write_def map_add_def split: option.splits)
next
  case (Some old)
  have "map_of (map (\<lambda>(k, v). if k = p then (k, n) else (k, v)) fs) q
        = (if q = p then (case map_of fs p of None \<Rightarrow> None | Some v \<Rightarrow> Some n) else map_of fs q)"
    by (induction fs) auto
  then show ?thesis using Some by (simp add: fs_write_def)
qed

lemma mkdir_effect:
  assumes "mkdir name fs = Inr fs'"
  shows "map_of fs name = None \<and> name \<noteq> []
       \<and> (\<forall>q. map_of fs' q = (if q = name then Some Dir else map_of fs q))"
  using assms by (auto simp: mkdir_def path_exists_def map_of_fs_write split: if_splits)

lemma makedirs_rev_effect:
  "makedirs_rev ok rp fs = Inr fs' \<Longrightarrow>
   map_of fs' q = map_of fs q
   \<or> (map_of fs q = None \<and> map_of fs' q = Some Dir \<and> prefix q (rev rp))"
proof (induction rp arbitrary: fs fs')
  case Nil
  then show ?case by (simp split: if_splits)
next
  case (Cons t rhead)
  let ?inner = "(if rhead \<noteq> [] \<and> \<not> path_exists fs (rev rhead)
            then (case makedirs_rev ok rhead fs of
                    Inl e \<Rightarrow> if e = OSError ''FileExistsError'' then Inr fs else Inl e
                  | Inr fs' \<Rightarrow> Inr fs')
            else Inr fs)"
  from Cons.prems obtain fs1 where inner: "?inner = Inr fs1"
    and outer: "(case mkdir (rev (t # rhead)) fs1 of
             Inl e \<Rightarrow> if ok \<and> isdir fs1 (rev (t # rhead)) then Inr fs1 else Inl e
           | Inr fs'' \<Rightarrow> Inr fs'') = Inr fs'"
    by (cases ?inner) auto
  have step1: "map_of fs1 q = map_of fs q
     \<or> (map_of fs q = None \<and> map_of fs1 q = Some Dir \<and> prefix q (rev rhead))"
  proof (cases "rhead \<noteq> [] \<and> \<not> path_exists fs (rev rhead)")
    case False
    then show ?thesis using inner by auto
  next
    case True
    show ?thesis
    proof (cases "makedirs_rev ok rhead fs")
      case (Inl e)
      then show ?thesis using inner True by (auto split: if_splits)
    next
      case (Inr fs2)
      then have "fs1 = fs2" using inner True by simp
      with Cons.IH [OF Inr] show ?thesis by simp
    qed
  qed
  have step2: "map_of fs' q = map_of fs1 q
     \<or> (map_of fs1 q = None \<and> map_of fs' q = Some Dir \<and> q = rev (t # rhead))"
  proof (cases "mkdir (rev (t # rhead)) fs1")
    case (Inl e)
    then show ?thesis using outer by (auto split: if_splits)
  next
    case (Inr fs3)
    then have "fs' = fs3" using outer by simp
    with mkdir_effect [OF Inr] show ?thesis by auto
  qed
  from step1 step2 show ?case
    by (auto simp: prefix_def)
qed

lemma makedirs_effect:
  "makedirs ok p fs = Inr fs' \<Longrightarrow>
   map_of fs' q = map_of fs q \<or> (map_of fs q = None \<and> map_of fs' q = Some Dir \<and> prefix q p)"
  using makedirs_rev_effect [of ok "rev p" fs fs' q] by (simp add: makedirs_def)

lemma makedirs_keeps:
  "makedirs ok p fs = Inr fs' \<Longrightarrow> map_of fs q = Some n \<Longrightarrow> map_of fs' q = Some n"
  using makedirs_effect [of ok p fs fs' q] by auto

lemma copy2_effect:
  assumes "copy2 src dst fs = Inr fs'"
  shows "\<exists>c m. map_of fs src = Some (File c m True)
       \<and> (\<forall>q. map_of fs' q =
            (if q = (if isdir fs dst then dst @ [last src] else dst)
             then Some (File c m True) else map_of fs q))"
proof -
  from assms obtain c m r where src: "map_of fs src = Some (File c m r)"
    by (auto simp: copy2_def Let_def split: option.splits node.splits)
  with assms have "r" and "fs' = fs_write (if isdir fs dst then dst @ [last src] else dst) (File c m True) fs"
    by (auto simp: copy2_def Let_def split: if_splits)
  with src show ?thesis
    by (auto simp: map_of_fs_write)
qed

lemma backup_file_path_of_eq:
  "backup_file_path_of sp bp cur root file =
     bp @ drop (length sp) (root @ [file])
        @ [fst (splitext file) @ ''_'' @ strftime fmt_compact cur @ snd (splitext file)]"
  by (simp add: backup_file_path_of_def Let_def)

lemma backup_file_path_of_prefix:
  "prefix bp (backup_file_path_of sp bp cur root file)"
  "prefix bp (backup_file_path_of sp bp cur root file @ xs)"
  "prefix bp (butlast (backup_file_path_of sp bp cur root file))"
  by (simp_all add: backup_file_path_of_eq butlast_append)

lemma backup_one_cases:
  assumes "backup_one sp bp wm cur root file w = (r, w')"
  shows "(\<exists>e. getmtime (filesys w) (root @ [file]) = Inl e \<and> r = Inl e \<and> w' = w)
       \<or> (\<exists>m. getmtime (filesys w) (root @ [file]) = Inr m
              \<and> \<not> spec_should_copy m wm \<and> r = Inr ()
              \<and> w' = w\<lparr>log_lines := log_lines w @ [No_changes (root @ [file])]\<rparr>)
       \<or> (\<exists>m e. getmtime (filesys w) (root @ [file]) = Inr m
              \<and> spec_should_copy m wm
              \<and> makedirs True (butlast (backup_file_path_of sp bp cur root file)) (filesys w) = Inl e
              \<and> r = Inl e \<and> w' = w)
       \<or> (\<exists>m fs1 e. getmtime (filesys w) (root @ [file]) = Inr m
              \<and> spec_should_copy m wm
              \<and> makedirs True (butlast (backup_file_path_of sp bp cur root file)) (filesys w) = Inr fs1
              \<and> copy2 (root @ [file]) (backup_file_path_of sp bp cur root file) fs1 = Inl e
              \<and> r = Inl e \<and> w' = w\<lparr>filesys := fs1\<rparr>)
       \<or> (\<exists>m fs1 fs2. getmtime (filesys w) (root @ [file]) = Inr m
              \<and> spec_should_copy m wm
              \<and> makedirs True (butlast (backup_file_path_of sp bp cur root file)) (filesys w) = Inr fs1
              \<and> copy2 (root @ [file]) (backup_file_path_of sp bp cur root file) fs1 = Inr fs2
              \<and> r = Inr ()
              \<and> w' = w\<lparr>filesys := fs2,
                       log_lines := log_lines w @ [Backed_up (root @ [file])
                                      (backup_file_path_of sp bp cur root file)]\<rparr>)"
proof (cases "getmtime (filesys w) (root @ [file])")
  case (Inl e)
  then show ?thesis using assms by (simp add: backup_one_def)
next
  case m: (Inr m)
  show ?thesis
  proof (cases "spec_should_copy m wm")
    case False
    then show ?thesis using assms m by (simp add: backup_one_def spec_should_copy_def)
  next
    case True
    show ?thesis
    proof (cases "makedirs True (butlast (backup_file_path_of sp bp cur root file)) (filesys w)")
      case (Inl e)
      then show ?thesis using assms m True by (simp add: backup_one_def Let_def spec_should_copy_def)
    next
      case mk: (Inr fs1)
      show ?thesis
      proof (cases "copy2 (root @ [file]) (backup_file_path_of sp bp cur root file) fs1")
        case (Inl e)
        then show ?thesis using assms m True mk by (simp add: backup_one_def Let_def spec_should_copy_def)
      next
        case (Inr fs2)
        then show ?thesis using assms m True mk by (simp add: backup_one_def Let_def spec_should_copy_def)
      qed
    qed
  qed
qed

lemma backup_one_state:
  assumes "backup_one sp bp wm cur root file w = (r, w')"
  shows "clock w' = clock w \<and> ticks w' = ticks w \<and> config_file w' = config_file w
       \<and> (\<forall>e. r = Inl e \<longrightarrow> log_lines w' = log_lines w)"
  using backup_one_cases [OF assms]
  by (elim disjE exE conjE) auto

lemma backup_one_frame:
  assumes "backup_one sp bp wm cur root file w = (r, w')"
    and "map_of (filesys w) q = Some n"
    and "\<not> prefix bp q"
  shows "map_of (filesys w') q = Some n"
proof -
  let ?dst = "backup_file_path_of sp bp cur root file"
  have ne: "\<And>fs1. q \<noteq> (if isdir fs1 ?dst then ?dst @ [last (root @ [file])] else ?dst)"
    using assms(3) backup_file_path_of_prefix(1,2) by auto
  from backup_one_cases [OF assms(1)] show ?thesis
  proof (elim disjE exE conjE)
    fix m fs1 e
    assume "makedirs True (butlast ?dst) (filesys w) = Inr fs1" "w' = w\<lparr>filesys := fs1\<rparr>"
    then show ?thesis using makedirs_keeps assms(2) by simp
  next
    fix m fs1 fs2
    assume mk: "makedirs True (butlast ?dst) (filesys w) = Inr fs1"
      and cp: "copy2 (root @ [file]) ?dst fs1 = Inr fs2"
      and w': "w' = w\<lparr>filesys := fs2,
                       log_lines := log_lines w @ [Backed_up (root @ [file]) ?dst]\<rparr>"
    have "map_of fs1 q = Some n"
      using makedirs_keeps [OF mk assms(2)] .
    moreover have "map_of fs2 q = map_of fs1 q"
      using copy2_effect [OF cp] ne [of fs1] by auto
    ultimately show ?thesis using w' by simp
  qed (use assms(2) in auto)
qed

lemma backup_one_never_deletes:
  assumes "backup_one sp bp wm cur root file w = (r, w')"
    and "map_of (filesys w) q \<noteq> None"
  shows "map_of (filesys w') q \<noteq> None"
proof -
  let ?dst = "backup_file_path_of sp bp cur root file"
  from assms(2) obtain n where n: "map_of (filesys w) q = Some n" by auto
  from backup_one_cases [OF assms(1)] show ?thesis
  proof (elim disjE exE conjE)
    fix m fs1 e
    assume "makedirs True (butlast ?dst) (filesys w) = Inr fs1" "w' = w\<lparr>filesys := fs1\<rparr>"
    then show ?thesis using makedirs_keeps n by simp
  next
    fix m fs1 fs2
    assume mk: "makedirs True (butlast ?dst) (filesys w) = Inr fs1"
      and cp: "copy2 (root @ [file]) ?dst fs1 = Inr fs2"
      and w': "w' = w\<lparr>filesys := fs2,
                       log_lines := log_lines w @ [Backed_up (root @ [file]) ?dst]\<rparr>"
    have "map_of fs1 q = Some n"
      using makedirs_keeps [OF mk n] .
    then have "map_of fs2 q \<noteq> None"
      using copy2_effect [OF cp] by auto
    then show ?thesis using w' by simp
  qed (use n in auto)
qed

lemma splitext_append: "fst (splitext p) @ snd (splitext p) = p"
  by (simp add: splitext_def Let_def)

lemma strftime_compact_length: "length (strftime fmt_compact t) = 14"
  by (simp add: strftime_def fmt_compact_def pad2_def pad4_def)

lemma getmtime_file: "map_of fs p = Some (File c m r) \<Longrightarrow> getmtime fs p = Inr m"
  by (simp add: getmtime_def)

lemma getmtime_Inr:
  "getmtime fs p = Inr m \<Longrightarrow> \<exists>c r. map_of fs p = Some (File c m r)"
  by (auto simp: getmtime_def split: option.splits node.splits)

text \<open>
  C2 (amended). A copied file is written to the backup path joined with the whole
  relative path of the file, its own name included, joined with the new name
  stem, underscore, the fourteen digits of the run time, extension: the file gets a
  directory of its own name, and the copy, with the content and modification time of
  the source, stands in it.
\<close>

theorem copier_destination:
  fixes bp sp root dst :: path and fname :: string and cur :: datetime
  defines "dst \<equiv> bp @ drop (length sp) (root @ [fname])
        @ [fst (splitext fname) @ ''_'' @ strftime fmt_compact cur @ snd (splitext fname)]"
  assumes run: "backup_one sp bp wm cur root fname w = (Inr (), w')"
    and src: "map_of (filesys w) (root @ [fname]) = Some (File c m r)"
    and cond: "spec_should_copy m wm"
    and nodir: "map_of (filesys w) dst \<noteq> Some Dir"
  shows "map_of (filesys w') dst = Some (File c m True)
       \<and> isdir (filesys w') (butlast dst)
       \<and> butlast dst = bp @ drop (length sp) (root @ [fname])
       \<and> fst (splitext fname) @ snd (splitext fname) = fname
       \<and> length (strftime fmt_compact cur) = 14
       \<and> log_lines w' = log_lines w @ [Backed_up (root @ [fname]) dst]"
proof -
  have dst: "dst = backup_file_path_of sp bp cur root fname"
    by (simp add: dst_def backup_file_path_of_eq)
  have bl: "butlast dst = bp @ drop (length sp) (root @ [fname])"
    by (simp add: dst_def butlast_append)
  have ne: "dst \<noteq> []"
    by (simp add: dst_def)
  have gm: "getmtime (filesys w) (root @ [fname]) = Inr m"
    using src by (rule getmtime_file)
  from backup_one_cases [OF run] gm cond
  obtain fs1 fs2 where mk: "makedirs True (butlast dst) (filesys w) = Inr fs1"
    and cp: "copy2 (root @ [fname]) dst fs1 = Inr fs2"
    and w': "w' = w\<lparr>filesys := fs2, log_lines := log_lines w @ [Backed_up (root @ [fname]) dst]\<rparr>"
    unfolding dst by auto
  have "\<not> prefix dst (butlast dst)"
    using ne by (metis append_butlast_last_id prefix_order.dual_order.antisym prefix_snoc
        butlast_snoc not_Cons_self2 prefix_order.order_refl self_append_conv)
  then have d1: "map_of fs1 dst = map_of (filesys w) dst"
    using makedirs_effect [OF mk, of dst] by auto
  then have nd: "\<not> isdir fs1 dst"
    using nodir ne by (simp add: isdir_def)
  have s1: "map_of fs1 (root @ [fname]) = Some (File c m r)"
    using makedirs_keeps [OF mk src] .
  from copy2_effect [OF cp] s1 nd have f2: "\<forall>q. map_of fs2 q = (if q = dst then Some (File c m True) else map_of fs1 q)"
    by auto
  have dirs: "isdir fs1 (butlast dst)"
    using cp nd s1 by (auto simp: copy2_def Let_def split: if_splits)
  have "butlast dst \<noteq> dst"
    using ne by (metis append_butlast_last_id append_self_conv not_Cons_self2)
  then have "isdir fs2 (butlast dst)"
    using f2 dirs by (simp add: isdir_def)
  then show ?thesis
    using f2 w' bl by (simp add: splitext_append strftime_compact_length)
qed

lemma backup_one_line:
  assumes "backup_one sp bp wm cur root fname w = (Inr (), w')"
    and "map_of (filesys w) (root @ [fname]) = Some (File c m r)"
  shows "log_lines w' = log_lines w @ [expected_line (filesys w) sp bp wm cur (root, fname)]"
proof -
  have gm: "getmtime (filesys w) (root @ [fname]) = Inr m"
    using assms(2) by (rule getmtime_file)
  from backup_one_cases [OF assms(1)] gm assms(2) show ?thesis
    by (elim disjE exE conjE) (auto simp: expected_line_def)
qed

lemma backup_loop_append:
  "backup_loop sp bp wm cur (xs @ ys) w =
     (case backup_loop sp bp wm cur xs w of
        (Inl e, w') \<Rightarrow> (Inl e, w')
      | (Inr u, w') \<Rightarrow> backup_loop sp bp wm cur ys w')"
  by (induction xs arbitrary: w) (auto split: prod.splits sum.splits)

lemma backup_loop_state:
  "backup_loop sp bp wm cur files w = (r, w') \<Longrightarrow>
   clock w' = clock w \<and> ticks w' = ticks w \<and> config_file w' = config_file w"
proof (induction files arbitrary: w)
  case Nil
  then show ?case by simp
next
  case (Cons rf rest)
  obtain root fname where rf: "rf = (root, fname)" by (cases rf)
  obtain r1 w1 where one: "backup_one sp bp wm cur root fname w = (r1, w1)"
    by (cases "backup_one sp bp wm cur root fname w")
  note s1 = backup_one_state [OF one]
  show ?case
  proof (cases r1)
    case (Inl e)
    then have "w' = w1" using Cons.prems one rf by simp
    then show ?thesis using s1 by simp
  next
    case (Inr u)
    then have "backup_loop sp bp wm cur rest w1 = (r, w')"
      using Cons.prems one rf by simp
    from Cons.IH [OF this] s1 show ?thesis by simp
  qed
qed

lemma backup_loop_never_deletes:
  "backup_loop sp bp wm cur files w = (r, w') \<Longrightarrow> map_of (filesys w) q \<noteq> None \<Longrightarrow>
   map_of (filesys w') q \<noteq> None"
proof (induction files arbitrary: w)
  case Nil
  then show ?case by simp
next
  case (Cons rf rest)
  obtain root fname where rf: "rf = (root, fname)" by (cases rf)
  obtain r1 w1 where one: "backup_one sp bp wm cur root fname w = (r1, w1)"
    by (cases "backup_one sp bp wm cur root fname w")
  note k1 = backup_one_never_deletes [OF one Cons.prems(2)]
  show ?case
  proof (cases r1)
    case (Inl e)
    then have "w' = w1" using Cons.prems(1) one rf by simp
    then show ?thesis using k1 by simp
  next
    case (Inr u)
    then have "backup_loop sp bp wm cur rest w1 = (r, w')"
      using Cons.prems(1) one rf by simp
    from Cons.IH [OF this k1] show ?thesis .
  qed
qed

lemma backup_loop_log:
  assumes "backup_loop sp bp wm cur files w = (r, w')"
    and "\<forall>rf \<in> set files. \<not> prefix bp (fst rf @ [snd rf])
           \<and> (\<exists>c m rd. map_of (filesys w) (fst rf @ [snd rf]) = Some (File c m rd))"
  shows "\<exists>k \<le> length files.
           log_lines w' = log_lines w @ map (expected_line (filesys w) sp bp wm cur) (take k files)
           \<and> (r = Inr () \<longrightarrow> k = length files)"
  using assms
proof (induction files arbitrary: w)
  case Nil
  then show ?case by simp
next
  case (Cons rf rest)
  obtain root fname where rf: "rf = (root, fname)" by (cases rf)
  obtain r1 w1 where one: "backup_one sp bp wm cur root fname w = (r1, w1)"
    by (cases "backup_one sp bp wm cur root fname w")
  show ?case
  proof (cases r1)
    case (Inl e)
    then have "w' = w1" "r = Inl e" using Cons.prems(1) one rf by simp_all
    moreover have "log_lines w1 = log_lines w"
      using backup_one_state [OF one] Inl by simp
    ultimately have "log_lines w' = log_lines w @ map (expected_line (filesys w) sp bp wm cur) (take 0 (rf # rest))
        \<and> (r = Inr () \<longrightarrow> 0 = length (rf # rest))"
      by simp
    then show ?thesis by blast
  next
    case (Inr u)
    then have one': "backup_one sp bp wm cur root fname w = (Inr (), w1)"
      using one by simp
    have rest: "backup_loop sp bp wm cur rest w1 = (r, w')"
      using Cons.prems(1) one Inr rf by simp
    from Cons.prems(2) rf obtain c m rd where
      here: "map_of (filesys w) (root @ [fname]) = Some (File c m rd)"
      by auto
    have l1: "log_lines w1 = log_lines w @ [expected_line (filesys w) sp bp wm cur rf]"
      using backup_one_line [OF one' here] rf by simp
    have keep: "\<forall>x \<in> set rest. map_of (filesys w1) (fst x @ [snd x]) = map_of (filesys w) (fst x @ [snd x])"
    proof
      fix x assume x: "x \<in> set rest"
      with Cons.prems(2) obtain c' m' rd' where
        "\<not> prefix bp (fst x @ [snd x])"
        "map_of (filesys w) (fst x @ [snd x]) = Some (File c' m' rd')"
        by auto
      then show "map_of (filesys w1) (fst x @ [snd x]) = map_of (filesys w) (fst x @ [snd x])"
        using backup_one_frame [OF one] by simp
    qed
    have pre1: "\<forall>x \<in> set rest. \<not> prefix bp (fst x @ [snd x])
           \<and> (\<exists>c m rd. map_of (filesys w1) (fst x @ [snd x]) = Some (File c m rd))"
      using Cons.prems(2) keep by simp
    from Cons.IH [OF rest pre1] obtain k where k: "k \<le> length rest"
      "log_lines w' = log_lines w1 @ map (expected_line (filesys w1) sp bp wm cur) (take k rest)"
      "r = Inr () \<longrightarrow> k = length rest"
      by blast
    have same: "map (expected_line (filesys w1) sp bp wm cur) (take k rest)
        = map (expected_line (filesys w) sp bp wm cur) (take k rest)"
    proof (rule map_cong [OF refl])
      fix x assume "x \<in> set (take k rest)"
      then have "x \<in> set rest" by (rule in_set_takeD)
      with keep show "expected_line (filesys w1) sp bp wm cur x = expected_line (filesys w) sp bp wm cur x"
        by (simp add: expected_line_def)
    qed
    have "Suc k \<le> length (rf # rest)
      \<and> log_lines w' = log_lines w @ map (expected_line (filesys w) sp bp wm cur) (take (Suc k) (rf # rest))
      \<and> (r = Inr () \<longrightarrow> Suc k = length (rf # rest))"
      using k l1 same by simp
    then show ?thesis by blast
  qed
qed

lemma os_walk_members:
  assumes "distinct (map fst fs)" "rf \<in> set (os_walk sp fs)"
  shows "strict_prefix sp (fst rf @ [snd rf])
       \<and> (\<exists>c m rd. map_of fs (fst rf @ [snd rf]) = Some (File c m rd))"
proof -
  from assms(2) obtain q n where q: "(q, n) \<in> set fs" "n \<noteq> Dir" "strict_prefix sp q"
    "rf = (butlast q, last q)"
    by (auto simp: os_walk_def split: if_splits)
  from q(3) have "q \<noteq> []" by auto
  then have fp: "fst rf @ [snd rf] = q" using q(4) by simp
  have "map_of fs q = Some n"
    using assms(1) q(1) by (rule map_of_is_SomeI)
  moreover obtain c m rd where "n = File c m rd"
    using q(2) by (cases n) auto
  ultimately show ?thesis using fp q(3) by simp
qed

text \<open>
  With the backup tree and the source tree apart, the log of a run of the copier holds,
  for the files of the walk in their order up to the one where the run ended, the line
  the decision rule asks for.
\<close>

lemma copier_log:
  assumes "create_backup sp bp wm rt ss w = (r, w')"
    and "distinct (map fst (filesys w))"
    and "\<not> prefix sp bp" and "\<not> prefix bp sp"
  shows "\<exists>k \<le> length (os_walk sp (filesys w)).
           log_lines w' = log_lines w
              @ map (expected_line (filesys w) sp bp wm (clock w (ticks w)))
                    (take k (os_walk sp (filesys w)))
           \<and> (r = Inr () \<longrightarrow> k = length (os_walk sp (filesys w)))"
proof -
  let ?w1 = "snd (datetime_now w)"
  have loop: "backup_loop sp bp wm (clock w (ticks w)) (os_walk sp (filesys w)) ?w1 = (r, w')"
    using assms(1) by (simp add: create_backup_def datetime_now_simps Let_def)
  have pre: "\<forall>rf \<in> set (os_walk sp (filesys w)). \<not> prefix bp (fst rf @ [snd rf])
           \<and> (\<exists>c m rd. map_of (filesys ?w1) (fst rf @ [snd rf]) = Some (File c m rd))"
  proof
    fix rf assume "rf \<in> set (os_walk sp (filesys w))"
    from os_walk_members [OF assms(2) this]
    have sp: "strict_prefix sp (fst rf @ [snd rf])"
      and f: "\<exists>c m rd. map_of (filesys w) (fst rf @ [snd rf]) = Some (File c m rd)"
      by simp_all
    have "\<not> prefix bp (fst rf @ [snd rf])"
    proof
      assume "prefix bp (fst rf @ [snd rf])"
      moreover have "prefix sp (fst rf @ [snd rf])" using sp by (rule strict_prefixE) simp
      ultimately have "prefix bp sp \<or> prefix sp bp"
        by (rule prefix_same_cases)
      then show False using assms(3,4) by blast
    qed
    then show "\<not> prefix bp (fst rf @ [snd rf])
           \<and> (\<exists>c m rd. map_of (filesys ?w1) (fst rf @ [snd rf]) = Some (File c m rd))"
      using f by (simp add: datetime_now_simps)
  qed
  from backup_loop_log [OF loop pre] show ?thesis
    by (simp add: datetime_now_simps)
qed

lemma backup_one_copied:
  assumes run: "backup_one sp bp wm cur root fname w = (Inr (), w')"
    and src: "map_of (filesys w) (root @ [fname]) = Some (File c m r)"
    and cond: "spec_should_copy m wm"
  shows "map_of (filesys w')
           (if map_of (filesys w) (backup_file_path_of sp bp cur root fname) = Some Dir
            then backup_file_path_of sp bp cur root fname @ [fname]
            else backup_file_path_of sp bp cur root fname) = Some (File c m True)
       \<and> log_lines w' = log_lines w
            @ [Backed_up (root @ [fname]) (backup_file_path_of sp bp cur root fname)]"
proof -
  let ?dst = "backup_file_path_of sp bp cur root fname"
  have ne: "?dst \<noteq> []"
    by (simp add: backup_file_path_of_eq)
  have gm: "getmtime (filesys w) (root @ [fname]) = Inr m"
    using src by (rule getmtime_file)
  from backup_one_cases [OF run] gm cond
  obtain fs1 fs2 where mk: "makedirs True (butlast ?dst) (filesys w) = Inr fs1"
    and cp: "copy2 (root @ [fname]) ?dst fs1 = Inr fs2"
    and w': "w' = w\<lparr>filesys := fs2, log_lines := log_lines w @ [Backed_up (root @ [fname]) ?dst]\<rparr>"
    by auto
  have "\<not> prefix ?dst (butlast ?dst)"
    using ne by (metis append_butlast_last_id prefix_order.dual_order.antisym prefix_snoc
        butlast_snoc not_Cons_self2 prefix_order.order_refl self_append_conv)
  then have d1: "map_of fs1 ?dst = map_of (filesys w) ?dst"
    using makedirs_effect [OF mk, of ?dst] by auto
  then have nd: "isdir fs1 ?dst \<longleftrightarrow> map_of (filesys w) ?dst = Some Dir"
    using ne by (simp add: isdir_def)
  have s1: "map_of fs1 (root @ [fname]) = Some (File c m r)"
    using makedirs_keeps [OF mk src] .
  from copy2_effect [OF cp] s1
  have "map_of fs2 (if isdir fs1 ?dst then ?dst @ [last (root @ [fname])] else ?dst)
      = Some (File c m True)"
    by auto
  then have "map_of fs2 (if map_of (filesys w) ?dst = Some Dir then ?dst @ [fname] else ?dst)
      = Some (File c m True)"
    unfolding nd by (simp cong: if_cong)
  then show ?thesis
    using w' by (simp cong: if_cong)
qed

lemma backup_one_skipped:
  assumes run: "backup_one sp bp wm cur root fname w = (res, w')"
    and src: "map_of (filesys w) (root @ [fname]) = Some (File c m r)"
    and cond: "\<not> spec_should_copy m wm"
  shows "res = Inr () \<and> filesys w' = filesys w
       \<and> log_lines w' = log_lines w @ [No_changes (root @ [fname])]"
proof -
  have gm: "getmtime (filesys w) (root @ [fname]) = Inr m"
    using src by (rule getmtime_file)
  from backup_one_cases [OF run] gm cond show ?thesis
    by auto
qed

text \<open>
  C3 (amended). For a file of the walk that the loop reaches (no file listed before it
  raised), with modification time \<open>m\<close>: when \<open>m\<close> is after the watermark, or the
  watermark is the minimum datetime whatever \<open>m\<close> is, the copy is attempted; if it
  succeeds the file stands at the destination with the content and modification time
  of the source (inside the destination when that was a directory) and the copy is
  logged, if it raises nothing is logged and nothing that existed is lost. Otherwise
  nothing is written and "no changes" is logged. The run of create_backup goes on with
  the files listed after it exactly when no error was raised.
\<close>

theorem copier_decision:
  assumes "os_walk sp (filesys w) = pre @ (root, fname) # post"
    and "backup_loop sp bp wm (clock w (ticks w)) pre (snd (datetime_now w)) = (Inr (), w1)"
    and "map_of (filesys w1) (root @ [fname]) = Some (File c m r)"
    and "backup_one sp bp wm (clock w (ticks w)) root fname w1 = (res, w2)"
  shows "(if dt_less wm m \<or> wm = datetime_min
          then (res = Inr () \<longrightarrow>
                  map_of (filesys w2)
                    (if map_of (filesys w1)
                          (backup_file_path_of sp bp (clock w (ticks w)) root fname) = Some Dir
                     then backup_file_path_of sp bp (clock w (ticks w)) root fname @ [fname]
                     else backup_file_path_of sp bp (clock w (ticks w)) root fname)
                    = Some (File c m True)
                  \<and> log_lines w2 = log_lines w1
                       @ [Backed_up (root @ [fname])
                            (backup_file_path_of sp bp (clock w (ticks w)) root fname)])
             \<and> (\<forall>e. res = Inl e \<longrightarrow> log_lines w2 = log_lines w1
                    \<and> (\<forall>q. map_of (filesys w1) q \<noteq> None \<longrightarrow> map_of (filesys w2) q \<noteq> None))
          else res = Inr () \<and> filesys w2 = filesys w1
               \<and> log_lines w2 = log_lines w1 @ [No_changes (root @ [fname])])
       \<and> create_backup sp bp wm rt ss w
           = (case res of Inl e \<Rightarrow> (Inl e, w2)
              | Inr u \<Rightarrow> backup_loop sp bp wm (clock w (ticks w)) post w2)"
proof
  show "if dt_less wm m \<or> wm = datetime_min
          then (res = Inr () \<longrightarrow>
                  map_of (filesys w2)
                    (if map_of (filesys w1)
                          (backup_file_path_of sp bp (clock w (ticks w)) root fname) = Some Dir
                     then backup_file_path_of sp bp (clock w (ticks w)) root fname @ [fname]
                     else backup_file_path_of sp bp (clock w (ticks w)) root fname)
                    = Some (File c m True)
                  \<and> log_lines w2 = log_lines w1
                       @ [Backed_up (root @ [fname])
                            (backup_file_path_of sp bp (clock w (ticks w)) root fname)])
             \<and> (\<forall>e. res = Inl e \<longrightarrow> log_lines w2 = log_lines w1
                    \<and> (\<forall>q. map_of (filesys w1) q \<noteq> None \<longrightarrow> map_of (filesys w2) q \<noteq> None))
          else res = Inr () \<and> filesys w2 = filesys w1
               \<and> log_lines w2 = log_lines w1 @ [No_changes (root @ [fname])]"
  proof (cases "dt_less wm m \<or> wm = datetime_min")
    case True
    then have cond: "spec_should_copy m wm"
      by (simp add: spec_should_copy_def)
    have a: "res = Inr () \<longrightarrow>
                  map_of (filesys w2)
                    (if map_of (filesys w1)
                          (backup_file_path_of sp bp (clock w (ticks w)) root fname) = Some Dir
                     then backup_file_path_of sp bp (clock w (ticks w)) root fname @ [fname]
                     else backup_file_path_of sp bp (clock w (ticks w)) root fname)
                    = Some (File c m True)
                  \<and> log_lines w2 = log_lines w1
                       @ [Backed_up (root @ [fname])
                            (backup_file_path_of sp bp (clock w (ticks w)) root fname)]"
    proof
      assume "res = Inr ()"
      then have "backup_one sp bp wm (clock w (ticks w)) root fname w1 = (Inr (), w2)"
        using assms(4) by simp
      from backup_one_copied [OF this assms(3) cond] show "map_of (filesys w2)
                    (if map_of (filesys w1)
                          (backup_file_path_of sp bp (clock w (ticks w)) root fname) = Some Dir
                     then backup_file_path_of sp bp (clock w (ticks w)) root fname @ [fname]
                     else backup_file_path_of sp bp (clock w (ticks w)) root fname)
                    = Some (File c m True)
                  \<and> log_lines w2 = log_lines w1
                       @ [Backed_up (root @ [fname])
                            (backup_file_path_of sp bp (clock w (ticks w)) root fname)]" .
    qed
    have b: "\<forall>e. res = Inl e \<longrightarrow> log_lines w2 = log_lines w1
                    \<and> (\<forall>q. map_of (filesys w1) q \<noteq> None \<longrightarrow> map_of (filesys w2) q \<noteq> None)"
      using backup_one_state [OF assms(4)] backup_one_never_deletes [OF assms(4)] by blast
    from a b True show ?thesis by (simp only: if_True simp_thms)
  next
    case False
    then have "\<not> spec_should_copy m wm"
      by (simp add: spec_should_copy_def)
    from backup_one_skipped [OF assms(4,3) this] False show ?thesis
      by (simp only: if_False simp_thms)
  qed
next
  show "create_backup sp bp wm rt ss w
           = (case res of Inl e \<Rightarrow> (Inl e, w2)
              | Inr u \<Rightarrow> backup_loop sp bp wm (clock w (ticks w)) post w2)"
    using assms(1,2,4)
    by (cases res) (simp_all add: create_backup_def datetime_now_simps Let_def backup_loop_append)
qed

text \<open>
  C7 (amended). A failure while copying one file is not caught and not logged: it
  leaves the loop and create_backup with that error, in the state reached, and the
  files that the walk lists after it are not processed.
\<close>

theorem copier_failure_aborts:
  assumes "os_walk sp (filesys w) = pre @ (root, fname) # post"
    and "backup_loop sp bp wm (clock w (ticks w)) pre (snd (datetime_now w)) = (Inr (), w1)"
    and "backup_one sp bp wm (clock w (ticks w)) root fname w1 = (Inl e, w2)"
  shows "create_backup sp bp wm rt ss w = (Inl e, w2) \<and> log_lines w2 = log_lines w1"
proof
  show "create_backup sp bp wm rt ss w = (Inl e, w2)"
    using assms
    by (simp add: create_backup_def datetime_now_simps Let_def backup_loop_append)
  show "log_lines w2 = log_lines w1"
    using backup_one_state [OF assms(3)] by simp
qed

subsection \<open>Runs of the copier on concrete trees\<close>

lemmas copy_eval = create_backup_def backup_one_def backup_file_path_of_def splitext_def
  rfind_def datetime_now_def copy_world_def no_config_def tree_a_def tree_ab_def
  noon_plus_1s_def noon_minus_1s_def spec_should_copy_def expected_line_def Let_def
  a_week_def no_time_def

lemma backup_one_tree_a:
  "backup_one [''src''] [''bk''] datetime_min noon [''src''] ''a.txt'' (copy_world tree_a)
   = (Inr (), (copy_world (tree_a @ [([''bk'', ''a.txt''], Dir),
         ([''bk'', ''a.txt'', ''a_20240102120000.txt''], File ''hello'' new_year True)]))
        \<lparr>log_lines := [Backed_up [''src'', ''a.txt'']
                         [''bk'', ''a.txt'', ''a_20240102120000.txt'']]\<rparr>)"
  by (simp add: copy_eval fs_eval time_eval)

theorem copier_destination_witness:
  "map_of (filesys (snd (backup_one [''src''] [''bk''] datetime_min noon [''src''] ''a.txt''
       (copy_world tree_a)))) [''bk'', ''a.txt'', ''a_20240102120000.txt'']
     = Some (File ''hello'' new_year True)"
proof -
  have src: "map_of (filesys (copy_world tree_a)) ([''src''] @ [''a.txt''])
      = Some (File ''hello'' new_year True)"
    by (simp add: copy_world_def tree_a_def)
  have cond: "spec_should_copy new_year datetime_min"
    by (simp add: spec_should_copy_def)
  have nodir: "map_of (filesys (copy_world tree_a))
      ([''bk''] @ drop (length [''src'']) ([''src''] @ [''a.txt''])
        @ [fst (splitext ''a.txt'') @ ''_'' @ strftime fmt_compact noon @ snd (splitext ''a.txt'')])
      \<noteq> Some Dir"
    by (simp add: copy_eval time_eval)
  have name: "[''bk''] @ drop (length [''src'']) ([''src''] @ [''a.txt''])
        @ [fst (splitext ''a.txt'') @ ''_'' @ strftime fmt_compact noon @ snd (splitext ''a.txt'')]
      = [''bk'', ''a.txt'', ''a_20240102120000.txt'']"
    by (simp add: copy_eval time_eval)
  from copier_destination [OF backup_one_tree_a src cond nodir] show ?thesis
    unfolding name backup_one_tree_a by simp
qed

text \<open>
  C2 as stated fails on the scenario of the specification: the artifact is
  \<open>bk/a.txt/a_20240102120000.txt\<close>, in a directory named after the file, and there is
  nothing at \<open>bk/a_20240102120000.txt\<close>.
\<close>

theorem copier_destination_counterexample:
  "create_backup [''src''] [''bk''] datetime_min a_week no_time (copy_world tree_a)
   = (Inr (), (copy_world (tree_a @ [([''bk'', ''a.txt''], Dir),
         ([''bk'', ''a.txt'', ''a_20240102120000.txt''], File ''hello'' new_year True)]))
        \<lparr>ticks := 1,
         log_lines := [Backed_up [''src'', ''a.txt'']
                         [''bk'', ''a.txt'', ''a_20240102120000.txt'']]\<rparr>)
   \<and> map_of (tree_a @ [([''bk'', ''a.txt''], Dir),
         ([''bk'', ''a.txt'', ''a_20240102120000.txt''], File ''hello'' new_year True)])
        [''bk'', ''a_20240102120000.txt''] = None"
  by (simp add: copy_eval fs_eval time_eval)

lemma walk_tree_ab:
  "os_walk [''src''] (filesys (copy_world (tree_ab rd ma mb)))
     = [([''src''], ''a.txt''), ([''src''], ''b.txt'')]"
  by (simp add: copy_world_def tree_ab_def fs_eval)

theorem copier_decision_witness:
  "create_backup [''src''] [''bk''] noon a_week no_time
       (copy_world (tree_ab True noon_plus_1s noon_minus_1s))
   = (Inr (), (copy_world (tree_ab True noon_plus_1s noon_minus_1s
         @ [([''bk'', ''a.txt''], Dir),
            ([''bk'', ''a.txt'', ''a_20240102120000.txt''], File ''hello'' noon_plus_1s True)]))
        \<lparr>ticks := 1,
         log_lines := [Backed_up [''src'', ''a.txt''] [''bk'', ''a.txt'', ''a_20240102120000.txt''],
                       No_changes [''src'', ''b.txt'']]\<rparr>)"
proof -
  let ?w = "copy_world (tree_ab True noon_plus_1s noon_minus_1s)"
  let ?fs1 = "tree_ab True noon_plus_1s noon_minus_1s
         @ [([''bk'', ''a.txt''], Dir),
            ([''bk'', ''a.txt'', ''a_20240102120000.txt''], File ''hello'' noon_plus_1s True)]"
  let ?w1 = "(copy_world ?fs1)
        \<lparr>ticks := 1,
         log_lines := [Backed_up [''src'', ''a.txt''] [''bk'', ''a.txt'', ''a_20240102120000.txt'']]\<rparr>"
  have walk: "os_walk [''src''] (filesys ?w) = [([''src''], ''a.txt'')] @ ([''src''], ''b.txt'') # []"
    by (simp add: walk_tree_ab)
  have clk: "clock ?w (ticks ?w) = noon"
    by (simp add: copy_world_def)
  have pre: "backup_loop [''src''] [''bk''] noon noon [([''src''], ''a.txt'')] (snd (datetime_now ?w))
      = (Inr (), ?w1)"
    by (simp add: copy_eval fs_eval time_eval)
  have node: "map_of (filesys ?w1) ([''src''] @ [''b.txt'']) = Some (File ''world'' noon_minus_1s True)"
    by (simp add: copy_world_def tree_ab_def)
  have nl: "\<not> (dt_less noon noon_minus_1s \<or> noon = datetime_min)"
    by (simp add: time_eval noon_minus_1s_def)
  obtain res w2 where step: "backup_one [''src''] [''bk''] noon noon [''src''] ''b.txt'' ?w1 = (res, w2)"
    by (cases "backup_one [''src''] [''bk''] noon noon [''src''] ''b.txt'' ?w1")
  from copier_decision [where w = "copy_world (tree_ab True noon_plus_1s noon_minus_1s)"
      and rt = a_week and ss = no_time, unfolded clk, OF walk pre node step] nl
  have r: "res = Inr ()" and f: "filesys w2 = filesys ?w1"
    and l: "log_lines w2 = log_lines ?w1 @ [No_changes ([''src''] @ [''b.txt''])]"
    and c: "create_backup [''src''] [''bk''] noon a_week no_time ?w
        = (case res of Inl e \<Rightarrow> (Inl e, w2)
           | Inr u \<Rightarrow> backup_loop [''src''] [''bk''] noon noon [] w2)"
    by simp_all
  have s: "clock w2 = clock ?w1 \<and> ticks w2 = ticks ?w1 \<and> config_file w2 = config_file ?w1"
    using backup_one_state [OF step] by simp
  have "w2 = ?w1\<lparr>log_lines := log_lines ?w1 @ [No_changes [''src'', ''b.txt'']]\<rparr>"
    using f l s by simp
  then show ?thesis
    using c r by (simp add: copy_world_def)
qed

text \<open>
  C3 as stated fails: with watermark noon, \<open>b.txt\<close>, modified a second after noon, is
  to be copied by the rule, but the copy of \<open>a.txt\<close> raises (a regular file stands where
  its directory should be made), the run ends, and \<open>b.txt\<close> is not copied.
\<close>

theorem copier_decision_counterexample:
  "dt_less noon noon_plus_1s
   \<and> create_backup [''src''] [''bk''] noon a_week no_time
        (copy_world (tree_ab True noon_plus_1s noon_plus_1s
                       @ [([''bk'', ''a.txt''], File ''old'' new_year True)]))
      = (Inl (OSError ''FileExistsError''),
         (copy_world (tree_ab True noon_plus_1s noon_plus_1s
                       @ [([''bk'', ''a.txt''], File ''old'' new_year True)]))\<lparr>ticks := 1\<rparr>)
   \<and> map_of (tree_ab True noon_plus_1s noon_plus_1s
               @ [([''bk'', ''a.txt''], File ''old'' new_year True)])
        [''bk'', ''b.txt''] = None"
  by (simp add: copy_eval fs_eval time_eval)

lemma backup_one_unreadable:
  "backup_one [''src''] [''bk''] datetime_min noon [''src''] ''a.txt''
     (snd (datetime_now (copy_world (tree_ab False new_year new_year))))
   = (Inl (OSError ''PermissionError''),
      (copy_world (tree_ab False new_year new_year @ [([''bk'', ''a.txt''], Dir)]))\<lparr>ticks := 1\<rparr>)"
  by (simp add: copy_eval fs_eval time_eval)

theorem copier_failure_aborts_witness:
  "create_backup [''src''] [''bk''] datetime_min a_week no_time
     (copy_world (tree_ab False new_year new_year))
   = (Inl (OSError ''PermissionError''),
      (copy_world (tree_ab False new_year new_year @ [([''bk'', ''a.txt''], Dir)]))\<lparr>ticks := 1\<rparr>)"
proof -
  let ?w = "copy_world (tree_ab False new_year new_year)"
  have walk: "os_walk [''src''] (filesys ?w) = [] @ ([''src''], ''a.txt'') # [([''src''], ''b.txt'')]"
    by (simp add: copy_world_def tree_ab_def fs_eval)
  have pre: "backup_loop [''src''] [''bk''] datetime_min (clock ?w (ticks ?w)) []
      (snd (datetime_now ?w)) = (Inr (), snd (datetime_now ?w))"
    by simp
  have clk: "clock ?w (ticks ?w) = noon"
    by (simp add: copy_world_def)
  from copier_failure_aborts [OF walk pre, unfolded clk, OF backup_one_unreadable]
  show ?thesis by simp
qed

text \<open>
  C7 as stated fails: \<open>a.txt\<close> cannot be read, the PermissionError leaves
  create_backup, nothing is logged, and \<open>b.txt\<close>, which the rule says to copy, has no
  backup.
\<close>

theorem copier_failure_counterexample:
  "fst (create_backup [''src''] [''bk''] datetime_min a_week no_time
     (copy_world (tree_ab False new_year new_year))) = Inl (OSError ''PermissionError'')
   \<and> log_lines (snd (create_backup [''src''] [''bk''] datetime_min a_week no_time
     (copy_world (tree_ab False new_year new_year)))) = []
   \<and> map_of (filesys (snd (create_backup [''src''] [''bk''] datetime_min a_week no_time
     (copy_world (tree_ab False new_year new_year))))) [''bk'', ''b.txt''] = None
   \<and> spec_should_copy new_year datetime_min"
  by (simp add: copy_eval fs_eval time_eval)

subsection \<open>The copier does not read contents\<close>























subsection \<open>perform_backup\<close>

lemma backup_one_changes:
  assumes "backup_one sp bp wm cur root fname w = (r, w')"
    and "map_of (filesys w') q \<noteq> map_of (filesys w) q"
  shows "map_of (filesys w') q = Some Dir
       \<or> ((\<exists>c m. map_of (filesys w') q = Some (File c m True))
            \<and> (q = backup_file_path_of sp bp cur root fname
                \<or> q = backup_file_path_of sp bp cur root fname @ [fname]))"
proof -
  let ?dst = "backup_file_path_of sp bp cur root fname"
  from backup_one_cases [OF assms(1)] show ?thesis
  proof (elim disjE exE conjE)
    fix m fs1 e
    assume "makedirs True (butlast ?dst) (filesys w) = Inr fs1" "w' = w\<lparr>filesys := fs1\<rparr>"
    then show ?thesis
      using makedirs_effect [of True "butlast ?dst" "filesys w" fs1 q] assms(2) by auto
  next
    fix m fs1 fs2
    assume mk: "makedirs True (butlast ?dst) (filesys w) = Inr fs1"
      and cp: "copy2 (root @ [fname]) ?dst fs1 = Inr fs2"
      and w': "w' = w\<lparr>filesys := fs2,
                       log_lines := log_lines w @ [Backed_up (root @ [fname]) ?dst]\<rparr>"
    from copy2_effect [OF cp] obtain c m' where
      f2: "\<forall>q. map_of fs2 q =
            (if q = (if isdir fs1 ?dst then ?dst @ [last (root @ [fname])] else ?dst)
             then Some (File c m' True) else map_of fs1 q)"
      by blast
    show ?thesis
    proof (cases "q = (if isdir fs1 ?dst then ?dst @ [last (root @ [fname])] else ?dst)")
      case True
      then have "map_of fs2 q = Some (File c m' True)" using f2 by simp
      moreover have "q = ?dst \<or> q = ?dst @ [fname]"
        using True by (simp split: if_splits)
      ultimately show ?thesis using w' by auto
    next
      case False
      then have "map_of fs2 q = map_of fs1 q" using f2 by simp
      then show ?thesis
        using makedirs_effect [OF mk, of q] assms(2) w' by auto
    qed
  qed (use assms(2) in auto)
qed

lemma backup_loop_changes:
  "backup_loop sp bp wm cur files w = (r, w') \<Longrightarrow>
   map_of (filesys w') q \<noteq> map_of (filesys w) q \<Longrightarrow>
   map_of (filesys w') q = Some Dir
   \<or> ((\<exists>c m. map_of (filesys w') q = Some (File c m True))
        \<and> (\<exists>root fname. q = backup_file_path_of sp bp cur root fname
                \<or> q = backup_file_path_of sp bp cur root fname @ [fname]))"
proof (induction files arbitrary: w)
  case Nil
  then show ?case by simp
next
  case (Cons rf rest)
  obtain root fname where rf: "rf = (root, fname)" by (cases rf)
  obtain r1 w1 where one: "backup_one sp bp wm cur root fname w = (r1, w1)"
    by (cases "backup_one sp bp wm cur root fname w")
  show ?case
  proof (cases r1)
    case (Inl e)
    then have "w' = w1" using Cons.prems(1) one rf by simp
    then show ?thesis
      using backup_one_changes [OF one, of q] Cons.prems(2) by blast
  next
    case (Inr u)
    then have rest: "backup_loop sp bp wm cur rest w1 = (r, w')"
      using Cons.prems(1) one rf by simp
    show ?thesis
    proof (cases "map_of (filesys w') q = map_of (filesys w1) q")
      case True
      then have "map_of (filesys w1) q \<noteq> map_of (filesys w) q"
        using Cons.prems(2) by simp
      from backup_one_changes [OF one this] True show ?thesis by auto
    next
      case False
      from Cons.IH [OF rest False] show ?thesis .
    qed
  qed
qed

lemma create_backup_unfold:
  "create_backup sp bp wm rt ss w
     = backup_loop sp bp wm (clock w (ticks w)) (os_walk sp (filesys w)) (snd (datetime_now w))"
  by (simp add: create_backup_def Let_def datetime_now_simps)

lemma create_backup_state:
  assumes "create_backup sp bp wm rt ss w = (r, w')"
  shows "clock w' = clock w \<and> ticks w' = Suc (ticks w) \<and> config_file w' = config_file w"
  using backup_loop_state [OF assms [unfolded create_backup_unfold]]
  by (simp add: datetime_now_simps)

lemma create_backup_never_deletes:
  assumes "create_backup sp bp wm rt ss w = (r, w')" "map_of (filesys w) q \<noteq> None"
  shows "map_of (filesys w') q \<noteq> None"
  using backup_loop_never_deletes [OF assms(1) [unfolded create_backup_unfold]] assms(2)
  by (simp add: datetime_now_simps)

lemma create_backup_changes:
  assumes "create_backup sp bp wm rt ss w = (r, w')"
    and "map_of (filesys w') q \<noteq> map_of (filesys w) q"
  shows "map_of (filesys w') q = Some Dir
   \<or> ((\<exists>c m. map_of (filesys w') q = Some (File c m True))
        \<and> (\<exists>root fname. q = backup_file_path_of sp bp (clock w (ticks w)) root fname
                \<or> q = backup_file_path_of sp bp (clock w (ticks w)) root fname @ [fname]))"
  using backup_loop_changes [OF assms(1) [unfolded create_backup_unfold], of q] assms(2)
  by (simp add: datetime_now_simps)

text \<open>What a run of perform_backup that ends normally went through.\<close>

lemma perform_backup_normal:
  assumes "perform_backup w = (Inr (), w')"
  shows "\<exists>sp bp rt ss fs1 wm w2.
           (fs1 = filesys w \<or> makedirs False bp (filesys w) = Inr fs1)
         \<and> create_backup sp bp wm rt ss
              (w\<lparr>filesys := fs1, log_lines := log_lines w @ start_lines\<rparr>) = (Inr (), w2)
         \<and> w' = (snd (datetime_now w2))
              \<lparr>config_file := (config_file w)\<lparr>cfg_last_backup_time :=
                                 Some (strftime fmt_config (fst (datetime_now w2)))\<rparr>,
               log_lines := log_lines w2 @ [Info ''Backup process completed.'']\<rparr>"
proof -
  let ?c = "config_file w"
  obtain sp where sp: "cfg_source_path ?c = Some sp"
    using assms by (cases "cfg_source_path ?c") (simp_all add: perform_backup_def Let_def)
  obtain bp where bp: "cfg_backup_path ?c = Some bp"
    using assms sp by (cases "cfg_backup_path ?c") (simp_all add: perform_backup_def Let_def)
  obtain rs where rs: "cfg_backup_retention_time ?c = Some rs"
    using assms sp bp
    by (cases "cfg_backup_retention_time ?c") (simp_all add: perform_backup_def Let_def)
  obtain rt where rt: "parse_timeframe rs = Inr rt"
    using assms sp bp rs
    by (cases "parse_timeframe rs") (simp_all add: perform_backup_def Let_def)
  obtain ivs where ivs: "cfg_second_stage_backup_interval ?c = Some ivs"
    using assms sp bp rs rt
    by (cases "cfg_second_stage_backup_interval ?c") (simp_all add: perform_backup_def Let_def)
  obtain ss where ss: "parse_timeframe ivs = Inr ss"
    using assms sp bp rs rt ivs
    by (cases "parse_timeframe ivs") (simp_all add: perform_backup_def Let_def)
  let ?mk = "if \<not> path_exists (filesys w) bp
            then makedirs False bp (filesys w) else Inr (filesys w)"
  obtain fs1 where fs1: "?mk = Inr fs1"
    using assms sp bp rs rt ivs ss
    by (cases ?mk) (simp_all add: perform_backup_def Let_def)
  let ?lt = "case cfg_last_backup_time ?c of
              None \<Rightarrow> Inr datetime_min
            | Some last_backup_time_str \<Rightarrow> strptime last_backup_time_str fmt_config"
  obtain wm where wm: "?lt = Inr wm"
    using assms sp bp rs rt ivs ss fs1
    by (cases ?lt) (simp_all add: perform_backup_def Let_def)
  let ?w0 = "w\<lparr>filesys := fs1, log_lines := log_lines w @ start_lines\<rparr>"
  obtain r2 w2 where cb: "create_backup sp bp wm rt ss ?w0 = (r2, w2)"
    by (cases "create_backup sp bp wm rt ss ?w0")
  have res: "(case (r2, w2) of
        (Inl e, w2) \<Rightarrow> (Inl e, w2)
      | (Inr u, w2) \<Rightarrow>
          (Inr (), (snd (datetime_now w2))
             \<lparr>config_file := ?c\<lparr>cfg_last_backup_time :=
                               Some (strftime fmt_config (fst (datetime_now w2)))\<rparr>,
              log_lines := log_lines w2 @ [Info ''Backup process completed.'']\<rparr>)) = (Inr (), w')"
    using assms sp bp rs rt ivs ss fs1 wm cb
    by (simp add: perform_backup_def Let_def start_lines_def)
  then have r2: "r2 = Inr ()"
    by (cases r2) simp_all
  have w': "w' = (snd (datetime_now w2))
             \<lparr>config_file := ?c\<lparr>cfg_last_backup_time :=
                               Some (strftime fmt_config (fst (datetime_now w2)))\<rparr>,
              log_lines := log_lines w2 @ [Info ''Backup process completed.'']\<rparr>"
    using res r2 by simp
  have "fs1 = filesys w \<or> makedirs False bp (filesys w) = Inr fs1"
    using fs1 by (simp split: if_splits)
  with cb r2 w' show ?thesis by blast
qed

text \<open>
  C9 (amended). The watermark that a normal run writes to backup.conf is the second
  reading of the clock of that run, taken when the config is written, in the format
  \<^verbatim>\<open>%Y-%m-%d %H:%M:%S\<close>; every file that the run writes has, as its name or as the
  name of the directory it stands in, a name that embeds the first reading, taken when
  create_backup starts, as fourteen digits.
\<close>

theorem watermark_is_second_reading:
  assumes "perform_backup w = (Inr (), w')"
  shows "cfg_last_backup_time (config_file w')
           = Some (strftime fmt_config (clock w (Suc (ticks w))))
       \<and> ticks w' = ticks w + 2
       \<and> (\<forall>q c m r. map_of (filesys w') q = Some (File c m r)
              \<and> map_of (filesys w) q \<noteq> Some (File c m r) \<longrightarrow>
            (\<exists>d stem ext tail.
               q = d @ [stem @ ''_'' @ strftime fmt_compact (clock w (ticks w)) @ ext] @ tail
               \<and> length tail \<le> 1))"
proof -
  from perform_backup_normal [OF assms] obtain sp bp rt ss fs1 wm w2 where
    mk: "fs1 = filesys w \<or> makedirs False bp (filesys w) = Inr fs1"
    and cb: "create_backup sp bp wm rt ss
              (w\<lparr>filesys := fs1, log_lines := log_lines w @ start_lines\<rparr>) = (Inr (), w2)"
    and w': "w' = (snd (datetime_now w2))
              \<lparr>config_file := (config_file w)\<lparr>cfg_last_backup_time :=
                                 Some (strftime fmt_config (fst (datetime_now w2)))\<rparr>,
               log_lines := log_lines w2 @ [Info ''Backup process completed.'']\<rparr>"
    by blast
  let ?w0 = "w\<lparr>filesys := fs1, log_lines := log_lines w @ start_lines\<rparr>"
  have st: "clock w2 = clock w" "ticks w2 = Suc (ticks w)"
    using create_backup_state [OF cb] by simp_all
  have a: "cfg_last_backup_time (config_file w')
           = Some (strftime fmt_config (clock w (Suc (ticks w))))"
    using w' st by (simp add: datetime_now_simps)
  have b: "ticks w' = ticks w + 2"
    using w' st by (simp add: datetime_now_simps)
  have fs': "filesys w' = filesys w2"
    using w' by (simp add: datetime_now_simps)
  have c: "\<forall>q c m r. map_of (filesys w') q = Some (File c m r)
              \<and> map_of (filesys w) q \<noteq> Some (File c m r) \<longrightarrow>
            (\<exists>d stem ext tail.
               q = d @ [stem @ ''_'' @ strftime fmt_compact (clock w (ticks w)) @ ext] @ tail
               \<and> length tail \<le> 1)"
  proof (intro allI impI)
    fix q c m r
    assume q: "map_of (filesys w') q = Some (File c m r) \<and> map_of (filesys w) q \<noteq> Some (File c m r)"
    have "map_of fs1 q \<noteq> Some (File c m r)"
    proof (cases "fs1 = filesys w")
      case True
      then show ?thesis using q by simp
    next
      case False
      then have "makedirs False bp (filesys w) = Inr fs1" using mk by simp
      from makedirs_effect [OF this, of q] q show ?thesis by auto
    qed
    then have "map_of (filesys w2) q \<noteq> map_of (filesys ?w0) q"
      using q fs' by simp
    from create_backup_changes [OF cb this] q fs'
    obtain root fname where "q = backup_file_path_of sp bp (clock w (ticks w)) root fname
        \<or> q = backup_file_path_of sp bp (clock w (ticks w)) root fname @ [fname]"
      by auto
    then show "\<exists>d stem ext tail.
               q = d @ [stem @ ''_'' @ strftime fmt_compact (clock w (ticks w)) @ ext] @ tail
               \<and> length tail \<le> 1"
    proof
      assume "q = backup_file_path_of sp bp (clock w (ticks w)) root fname"
      then have "q = (bp @ drop (length sp) (root @ [fname]))
          @ [fst (splitext fname) @ ''_'' @ strftime fmt_compact (clock w (ticks w))
               @ snd (splitext fname)] @ [] \<and> length ([] :: path) \<le> 1"
        by (simp add: backup_file_path_of_eq)
      then show ?thesis by blast
    next
      assume "q = backup_file_path_of sp bp (clock w (ticks w)) root fname @ [fname]"
      then have "q = (bp @ drop (length sp) (root @ [fname]))
          @ [fst (splitext fname) @ ''_'' @ strftime fmt_compact (clock w (ticks w))
               @ snd (splitext fname)] @ [fname] \<and> length [fname] \<le> 1"
        by (simp add: backup_file_path_of_eq)
      then show ?thesis by blast
    qed
  qed
  from a b c show ?thesis by blast
qed

text \<open>perform_backup removes nothing: whatever exists before the run exists after it,
  however the run ends.\<close>

lemma perform_backup_never_deletes:
  assumes "perform_backup w = (r, w')" and "map_of (filesys w) q \<noteq> None"
  shows "map_of (filesys w') q \<noteq> None"
proof -
  let ?c = "config_file w"
  note pb = perform_backup_def Let_def
  show ?thesis
  proof (cases "cfg_source_path ?c")
    case None
    then show ?thesis using assms by (simp add: pb)
  next
    case sp: (Some sp)
    show ?thesis
    proof (cases "cfg_backup_path ?c")
      case None
      then show ?thesis using assms sp by (simp add: pb)
    next
      case bp: (Some bp)
      show ?thesis
      proof (cases "cfg_backup_retention_time ?c")
        case None
        then show ?thesis using assms sp bp by (simp add: pb)
      next
        case rs: (Some rs)
        show ?thesis
        proof (cases "parse_timeframe rs")
          case (Inl e)
          then show ?thesis using assms sp bp rs by (simp add: pb)
        next
          case rt: (Inr rt)
          show ?thesis
          proof (cases "cfg_second_stage_backup_interval ?c")
            case None
            then show ?thesis using assms sp bp rs rt by (simp add: pb)
          next
            case ivs: (Some ivs)
            show ?thesis
            proof (cases "parse_timeframe ivs")
              case (Inl e)
              then show ?thesis using assms sp bp rs rt ivs by (simp add: pb)
            next
              case ss: (Inr ss)
              let ?mk = "if \<not> path_exists (filesys w) bp
                  then makedirs False bp (filesys w) else Inr (filesys w)"
              show ?thesis
              proof (cases ?mk)
                case (Inl e)
                then show ?thesis using assms sp bp rs rt ivs ss by (simp add: pb)
              next
                case fs1: (Inr fs1)
                have k1: "map_of fs1 q \<noteq> None"
                proof (cases "path_exists (filesys w) bp")
                  case True
                  then show ?thesis using fs1 assms(2) by simp
                next
                  case False
                  then have "makedirs False bp (filesys w) = Inr fs1" using fs1 by simp
                  then show ?thesis using makedirs_keeps assms(2) by fastforce
                qed
                let ?lt = "case cfg_last_backup_time ?c of
                    None \<Rightarrow> Inr datetime_min
                  | Some last_backup_time_str \<Rightarrow> strptime last_backup_time_str fmt_config"
                show ?thesis
                proof (cases ?lt)
                  case (Inl e)
                  then show ?thesis using assms(1) sp bp rs rt ivs ss fs1 k1 by (auto simp add: pb)
                next
                  case wm: (Inr wm)
                  let ?w0 = "w\<lparr>filesys := fs1, log_lines := log_lines w @ start_lines\<rparr>"
                  obtain r2 w2 where cb: "create_backup sp bp wm rt ss ?w0 = (r2, w2)"
                    by (cases "create_backup sp bp wm rt ss ?w0")
                  have k2: "map_of (filesys w2) q \<noteq> None"
                    using create_backup_never_deletes [OF cb] k1 by simp
                  show ?thesis
                    using assms(1) sp bp rs rt ivs ss fs1 wm cb k2
                    by (cases r2) (auto simp add: pb start_lines_def datetime_now_simps)
                qed
              qed
            qed
          qed
        qed
      qed
    qed
  qed
qed

subsection \<open>Runs of perform_backup on the scenario of the specification\<close>

lemmas perform_eval = perform_backup_def conf_world_def backup_conf_def parse_timeframe_def
  py_timedelta_def start_lines_def tree_old_def

lemma perform_backup_tree_a:
  "perform_backup (conf_world tree_a None)
   = (Inr (), (conf_world (tree_a @ [([''bk'', ''a.txt''], Dir),
          ([''bk'', ''a.txt'', ''a_20240102120000.txt''], File ''hello'' new_year True)])
        (Some ''2024-01-02 12:00:05''))
        \<lparr>ticks := 2,
         log_lines := start_lines
           @ [Backed_up [''src'', ''a.txt''] [''bk'', ''a.txt'', ''a_20240102120000.txt''],
              Info ''Backup process completed.'']\<rparr>)"
  by (simp add: perform_eval copy_eval fs_eval time_eval)

theorem watermark_is_second_reading_witness:
  "cfg_last_backup_time (config_file (snd (perform_backup (conf_world tree_a None))))
     = Some ''2024-01-02 12:00:05''"
proof -
  have c: "clock (conf_world tree_a None) (Suc (ticks (conf_world tree_a None))) = noon_plus_5s"
    by (simp add: conf_world_def)
  have s: "strftime fmt_config noon_plus_5s = ''2024-01-02 12:00:05''"
    by (simp add: time_eval)
  from watermark_is_second_reading [OF perform_backup_tree_a] show ?thesis
    unfolding perform_backup_tree_a c s by simp
qed

text \<open>
  C9 as stated fails on the scenario of the specification when the clock moves during
  the run: the copy is named for noon, the first reading, and backup.conf records five
  seconds past noon, the reading taken when it is written.
\<close>

theorem watermark_is_second_reading_counterexample:
  "cfg_last_backup_time (config_file (snd (perform_backup (conf_world tree_a None))))
     = Some ''2024-01-02 12:00:05''
   \<and> map_of (filesys (snd (perform_backup (conf_world tree_a None))))
          [''bk'', ''a.txt'', ''a_20240102120000.txt''] = Some (File ''hello'' new_year True)
   \<and> clock (conf_world tree_a None) (ticks (conf_world tree_a None)) = noon
   \<and> strftime fmt_config noon = ''2024-01-02 12:00:00''
   \<and> strftime fmt_compact noon = ''20240102120000''"
  unfolding perform_backup_tree_a
  by (simp add: conf_world_def backup_conf_def tree_a_def time_eval)

text \<open>
  C1. The code does not do what the claim says: the backup directory holds an entry of
  the year 2000, the retention is seven days and the run is at noon of 2024-01-02;
  perform_backup copies, writes backup.conf and ends normally, and the entry is still
  there, no line of the log reports a removal. remove_old_backups, called on the state
  the run leaves with the cutoff seven days before noon, deletes the entry.
\<close>

theorem perform_backup_keeps_expired:
  "perform_backup (conf_world tree_old None)
   = (Inr (), (conf_world (tree_old @ [([''bk'', ''a.txt''], Dir),
          ([''bk'', ''a.txt'', ''a_20240102120000.txt''], File ''hello'' new_year True)])
        (Some ''2024-01-02 12:00:05''))
        \<lparr>ticks := 2,
         log_lines := start_lines
           @ [Backed_up [''src'', ''a.txt''] [''bk'', ''a.txt'', ''a_20240102120000.txt''],
              Info ''Backup process completed.'']\<rparr>)
   \<and> map_of (tree_old @ [([''bk'', ''a.txt''], Dir),
          ([''bk'', ''a.txt'', ''a_20240102120000.txt''], File ''hello'' new_year True)])
        [''bk'', ''old_20000101000000''] = Some Dir
   \<and> backup_time_of ''old_20000101000000''
       = Inr \<lparr>year = 2000, month = 1, day = 1, hour = 0, minute = 0, second = 0, microsecond = 0\<rparr>
   \<and> dt_less \<lparr>year = 2000, month = 1, day = 1, hour = 0, minute = 0, second = 0, microsecond = 0\<rparr>
        week_before
   \<and> map_of (filesys (snd (remove_old_backups [''bk''] week_before 0
        ((conf_world (tree_old @ [([''bk'', ''a.txt''], Dir),
            ([''bk'', ''a.txt'', ''a_20240102120000.txt''], File ''hello'' new_year True)])
          (Some ''2024-01-02 12:00:05''))
          \<lparr>ticks := 2,
           log_lines := start_lines
             @ [Backed_up [''src'', ''a.txt''] [''bk'', ''a.txt'', ''a_20240102120000.txt''],
                Info ''Backup process completed.'']\<rparr>))))
        [''bk'', ''old_20000101000000''] = None"
proof (intro conjI)
  show "perform_backup (conf_world tree_old None)
   = (Inr (), (conf_world (tree_old @ [([''bk'', ''a.txt''], Dir),
          ([''bk'', ''a.txt'', ''a_20240102120000.txt''], File ''hello'' new_year True)])
        (Some ''2024-01-02 12:00:05''))
        \<lparr>ticks := 2,
         log_lines := start_lines
           @ [Backed_up [''src'', ''a.txt''] [''bk'', ''a.txt'', ''a_20240102120000.txt''],
              Info ''Backup process completed.'']\<rparr>)"
    by (simp add: perform_eval copy_eval fs_eval time_eval)
  show "map_of (tree_old @ [([''bk'', ''a.txt''], Dir),
          ([''bk'', ''a.txt'', ''a_20240102120000.txt''], File ''hello'' new_year True)])
        [''bk'', ''old_20000101000000''] = Some Dir"
    by (simp add: tree_old_def tree_a_def)
  show "backup_time_of ''old_20000101000000''
       = Inr \<lparr>year = 2000, month = 1, day = 1, hour = 0, minute = 0, second = 0, microsecond = 0\<rparr>"
    by (simp add: backup_time_of_def time_eval)
  show "dt_less \<lparr>year = 2000, month = 1, day = 1, hour = 0, minute = 0, second = 0, microsecond = 0\<rparr>
        week_before"
    by (simp add: time_eval)
  show "map_of (filesys (snd (remove_old_backups [''bk''] week_before 0
        ((conf_world (tree_old @ [([''bk'', ''a.txt''], Dir),
            ([''bk'', ''a.txt'', ''a_20240102120000.txt''], File ''hello'' new_year True)])
          (Some ''2024-01-02 12:00:05''))
          \<lparr>ticks := 2,
           log_lines := start_lines
             @ [Backed_up [''src'', ''a.txt''] [''bk'', ''a.txt'', ''a_20240102120000.txt''],
                Info ''Backup process completed.'']\<rparr>))))
        [''bk'', ''old_20000101000000''] = None"
    by (simp add: remove_old_backups_def remove_one_def backup_time_of_def datetime_now_def
        conf_world_def backup_conf_def tree_old_def tree_a_def fs_eval time_eval)
qed

end
